theory Spec2Isabelle
  imports Main "HOL-Library.Word" "HOL-Library.DAList" "HOL-Library.Sublist"
begin

unbundle bit_operations_syntax

section \<open>The Win32 layer (package win32)\<close>

subsection \<open>Types and constants\<close>

text \<open>
  \<open>windows.HWND\<close>, \<open>HANDLE\<close>, \<open>HICON\<close>, \<open>WPARAM\<close>, \<open>LPARAM\<close> and \<open>LRESULT\<close> are all
  \<open>uintptr\<close>: 64-bit words on the only platform the program runs on. \<open>DWORD\<close> is
  \<open>uint32\<close>.
\<close>

type_synonym uintptr = "64 word"
type_synonym HWND = "64 word"
type_synonym HICON = "64 word"
type_synonym DWORD = "32 word"

text \<open>
  A Go \<open>error\<close>: the \<open>syscall.Errno\<close> a system call leaves behind, or a message built
  with \<open>fmt.Errorf\<close>. The value \<open>nil\<close> is \<open>None\<close> of \<open>error option\<close>, and a Go function
  returning \<open>(v, err)\<close> returns a pair here.
\<close>

datatype error = Errno uintptr | Errorf string

definition WS_EX_TOOLWINDOW :: uintptr where
  "WS_EX_TOOLWINDOW = 0x00000080"

definition GA_ROOTOWNER :: DWORD where
  "GA_ROOTOWNER = 3"

definition GWL_EXSTYLE :: int where
  "GWL_EXSTYLE = -20"

definition DWMWA_CLOAKED :: DWORD where
  "DWMWA_CLOAKED = 14"

definition DWM_CLOAKED_APP :: DWORD where
  "DWM_CLOAKED_APP = 0x00000001"

definition DWM_CLOAKED_SHELL :: DWORD where
  "DWM_CLOAKED_SHELL = 0x00000002"

definition DWM_CLOAKED_INHERITED :: DWORD where
  "DWM_CLOAKED_INHERITED = 0x00000004"

definition MaxLastActivePopupIterations :: int where
  "MaxLastActivePopupIterations = 50"

definition WM_GETICON :: DWORD where
  "WM_GETICON = 0x007F"

definition ICON_SMALL :: uintptr where
  "ICON_SMALL = 0"

definition ICON_BIG :: uintptr where
  "ICON_BIG = 1"

definition ICON_SMALL2 :: uintptr where
  "ICON_SMALL2 = 2"

definition IDI_APPLICATION :: uintptr where
  "IDI_APPLICATION = 32512"

definition GCLP_HICON :: int where
  "GCLP_HICON = -14"

definition GCLP_HICONSM :: int where
  "GCLP_HICONSM = -34"

definition PROCESS_QUERY_LIMITED_INFORMATION :: DWORD where
  "PROCESS_QUERY_LIMITED_INFORMATION = 0x1000"

subsection \<open>The operating system, as the program observes it\<close>

text \<open>
  Every field is what one system call answers: the raw return value \<open>ret\<close> of
  \<open>proc.Call\<close>, the last-error value where the wrapper reads it, and what the call
  wrote through its out-pointers. The wrappers below turn these into the Go results the
  way \<open>win32.go\<close> does. The record is the state of the desktop during one refresh
  pass (or one classification); the popup walk below takes its two queries indexed by
  the iteration that issues them, so that the answers may change from call to call.

  \<open>os_HICONToBase64Png\<close> stands for the GDI conversion of an icon handle into a
  base64 PNG (\<open>GetIconInfo\<close>, \<open>GetObjectW\<close>, \<open>GetDC\<close>, \<open>GetDIBits\<close>, \<open>png.Encode\<close>):
  the refresh pass only looks at whether it returned an error and stores the text.
\<close>

record sys =
  os_IsWindowVisible :: "HWND \<Rightarrow> bool"
  os_GetAncestor :: "HWND \<Rightarrow> DWORD \<Rightarrow> uintptr"
  os_DwmGetWindowAttribute :: "HWND \<Rightarrow> DWORD \<Rightarrow> uintptr \<times> DWORD"
  os_GetWindowLongPtrW :: "HWND \<Rightarrow> int \<Rightarrow> uintptr"
  os_GetLastActivePopup :: "HWND \<Rightarrow> uintptr"
  os_GetClassNameW :: "HWND \<Rightarrow> uintptr \<times> uintptr \<times> string"
  os_GetWindowTextW :: "HWND \<Rightarrow> uintptr \<times> uintptr \<times> string"
  os_SendMessageW :: "HWND \<Rightarrow> DWORD \<Rightarrow> uintptr \<Rightarrow> uintptr \<Rightarrow> uintptr"
  os_GetClassLongPtrW :: "HWND \<Rightarrow> int \<Rightarrow> uintptr \<times> uintptr"
  os_ExtractIconExW :: "string \<Rightarrow> uintptr \<times> HICON"
  os_LoadIconW :: "uintptr \<Rightarrow> uintptr \<Rightarrow> uintptr"
  os_GetForegroundWindow :: "uintptr"
  os_SetForegroundWindow :: "HWND \<Rightarrow> uintptr"
  os_GetWindowThreadProcessId :: "HWND \<Rightarrow> DWORD"
  os_OpenProcess :: "DWORD \<Rightarrow> DWORD \<Rightarrow> uintptr \<times> error option"
  os_QueryFullProcessImageNameW :: "uintptr \<Rightarrow> uintptr \<times> uintptr \<times> string"
  os_EnumDesktopWindows :: "HWND list \<times> uintptr \<times> uintptr"
  os_HICONToBase64Png :: "HICON \<Rightarrow> string \<times> error option"

subsection \<open>Wrappers\<close>

text \<open>\<open>windows.UTF16ToString\<close>: the text of a buffer up to its first NUL.\<close>

definition UTF16ToString :: "string \<Rightarrow> string" where
  "UTF16ToString buf = takeWhile (\<lambda>c. c \<noteq> CHR 0x00) buf"

text \<open>\<open>windows.UTF16PtrFromString\<close>: an error when the text holds a NUL.\<close>

definition UTF16PtrFromString :: "string \<Rightarrow> string \<times> error option" where
  "UTF16PtrFromString s =
     (if CHR 0x00 \<in> set s then ([], Some (Errno 22)) else (s, None))"

definition GetAncestor :: "sys \<Rightarrow> HWND \<Rightarrow> DWORD \<Rightarrow> HWND" where
  "GetAncestor os hwnd gaFlags = os_GetAncestor os hwnd gaFlags"

definition GetLastActivePopup :: "sys \<Rightarrow> HWND \<Rightarrow> HWND" where
  "GetLastActivePopup os hwnd = os_GetLastActivePopup os hwnd"

definition GetWindowLongPtrW :: "sys \<Rightarrow> HWND \<Rightarrow> int \<Rightarrow> uintptr" where
  "GetWindowLongPtrW os hwnd nIndex = os_GetWindowLongPtrW os hwnd nIndex"

text \<open>\<open>DwmGetWindowAttribute\<close>: a nonzero HRESULT is the error; the second component is
  the variable \<open>cloaked\<close> after the call.\<close>

definition DwmGetWindowAttribute :: "sys \<Rightarrow> HWND \<Rightarrow> DWORD \<Rightarrow> error option \<times> DWORD" where
  "DwmGetWindowAttribute os hwnd dwAttribute =
     (case os_DwmGetWindowAttribute os hwnd dwAttribute of
        (ret, out) \<Rightarrow> (if ret \<noteq> 0 then (Some (Errno ret), out) else (None, out)))"

text \<open>\<open>GetClassNameW\<close> and \<open>GetWindowTextW\<close>: a zero return is the error, with the
  last-error value; otherwise the length as \<open>int32\<close>. The third component is the
  caller's buffer after the call.\<close>

definition GetClassNameW :: "sys \<Rightarrow> HWND \<Rightarrow> DWORD \<times> error option \<times> string" where
  "GetClassNameW os hwnd =
     (case os_GetClassNameW os hwnd of
        (ret, err, buf) \<Rightarrow>
          (if ret = 0 then (0, Some (Errno err), buf) else (ucast ret, None, buf)))"

definition GetWindowTextW :: "sys \<Rightarrow> HWND \<Rightarrow> DWORD \<times> error option \<times> string" where
  "GetWindowTextW os hwnd =
     (case os_GetWindowTextW os hwnd of
        (ret, err, buf) \<Rightarrow>
          (if ret = 0 then (0, Some (Errno err), buf) else (ucast ret, None, buf)))"

definition GetClassLongPtrW :: "sys \<Rightarrow> HWND \<Rightarrow> int \<Rightarrow> uintptr \<times> error option" where
  "GetClassLongPtrW os hwnd nIndex =
     (case os_GetClassLongPtrW os hwnd nIndex of
        (ret, err) \<Rightarrow> (if ret = 0 then (0, Some (Errno err)) else (ret, None)))"

definition SendMessage :: "sys \<Rightarrow> HWND \<Rightarrow> DWORD \<Rightarrow> uintptr \<Rightarrow> uintptr \<Rightarrow> uintptr" where
  "SendMessage os hwnd msg wParam lParam = os_SendMessageW os hwnd msg wParam lParam"

definition LoadIconW :: "sys \<Rightarrow> uintptr \<Rightarrow> uintptr \<Rightarrow> HICON" where
  "LoadIconW os hInstance lpIconName = os_LoadIconW os hInstance lpIconName"

definition MAKEINTRESOURCEW :: "uintptr \<Rightarrow> uintptr" where
  "MAKEINTRESOURCEW id' = id' AND 0xFFFF"

text \<open>\<open>ExtractIconExW(path, 0, &largeIcon, nil, 1)\<close>: the count as \<open>uint32\<close> and the
  handle written to \<open>largeIcon\<close>.\<close>

definition ExtractIconExW :: "sys \<Rightarrow> string \<Rightarrow> DWORD \<times> HICON" where
  "ExtractIconExW os lpszFile =
     (case os_ExtractIconExW os lpszFile of (ret, largeIcon) \<Rightarrow> (ucast ret, largeIcon))"

definition GetForegroundWindow :: "sys \<Rightarrow> HWND" where
  "GetForegroundWindow os = os_GetForegroundWindow os"

definition SetForegroundWindow :: "sys \<Rightarrow> HWND \<Rightarrow> bool" where
  "SetForegroundWindow os hwnd = (os_SetForegroundWindow os hwnd \<noteq> 0)"

definition QueryFullProcessImageNameW :: "sys \<Rightarrow> uintptr \<Rightarrow> error option \<times> string" where
  "QueryFullProcessImageNameW os hProcess =
     (case os_QueryFullProcessImageNameW os hProcess of
        (ret, err, buf) \<Rightarrow> (if ret = 0 then (Some (Errno err), buf) else (None, buf)))"

subsection \<open>Eligibility\<close>

text \<open>
  The loop of \<open>GetLastVisibleActivePopUpOfWindow\<close>. \<open>popup n\<close> and \<open>visible n\<close> are what
  \<open>GetLastActivePopup\<close> and \<open>windows.IsWindowVisible\<close> answer in the iteration numbered
  \<open>n\<close> (from 0). The second component of the result counts the iterations run; the
  Go function returns the first.
\<close>

function popUpLoop ::
  "(nat \<Rightarrow> HWND \<Rightarrow> HWND) \<Rightarrow> (nat \<Rightarrow> HWND \<Rightarrow> bool) \<Rightarrow> int \<Rightarrow> nat \<Rightarrow> HWND \<Rightarrow> HWND \<times> nat"
where
  "popUpLoop popup visible level n currentWindow =
     (if level > 0 then
        (let lastPopUp = popup n currentWindow in
           if visible n lastPopUp then (lastPopUp, Suc n)
           else if lastPopUp = currentWindow then (0, Suc n)
           else popUpLoop popup visible (level - 1) (Suc n) lastPopUp)
      else (0, n))"
  by pat_completeness auto
termination
  by (relation "measure (\<lambda>(popup, visible, level, n, currentWindow). nat level)") auto

declare popUpLoop.simps [simp del]

definition lastVisibleActivePopUp ::
  "(nat \<Rightarrow> HWND \<Rightarrow> HWND) \<Rightarrow> (nat \<Rightarrow> HWND \<Rightarrow> bool) \<Rightarrow> HWND \<Rightarrow> HWND \<times> nat" where
  "lastVisibleActivePopUp popup visible hwnd =
     popUpLoop popup visible MaxLastActivePopupIterations 0 hwnd"

definition GetLastVisibleActivePopUpOfWindow :: "sys \<Rightarrow> HWND \<Rightarrow> HWND" where
  "GetLastVisibleActivePopUpOfWindow os hwnd =
     fst (lastVisibleActivePopUp (\<lambda>n. GetLastActivePopup os) (\<lambda>n. os_IsWindowVisible os) hwnd)"

text \<open>The handle the walk holds on entering iteration \<open>k\<close>.\<close>

primrec popupChain :: "(nat \<Rightarrow> HWND \<Rightarrow> HWND) \<Rightarrow> HWND \<Rightarrow> nat \<Rightarrow> HWND" where
  "popupChain popup hwnd 0 = hwnd"
| "popupChain popup hwnd (Suc k) = popup k (popupChain popup hwnd k)"

definition WindowsClassNamesToSkip :: "string list" where
  "WindowsClassNamesToSkip =
     [''Shell_TrayWnd'', ''DV2ControlHost'', ''MsgrIMEWindowClass'', ''SysShadow'', ''Button'']"

definition EligibleForActivation :: "sys \<Rightarrow> HWND \<Rightarrow> HWND \<Rightarrow> bool" where
  "EligibleForActivation os hwnd shellWindow =
     (if hwnd = shellWindow then False
      else
        (let root = GetAncestor os hwnd GA_ROOTOWNER in
           if GetLastVisibleActivePopUpOfWindow os root \<noteq> hwnd then False
           else
             (case GetClassNameW os hwnd of
                (len, err, className) \<Rightarrow>
                  if err \<noteq> None \<or> len = 0 then False
                  else
                    (let classNameStr = UTF16ToString className in
                       if classNameStr \<in> set WindowsClassNamesToSkip then False
                       else if length classNameStr \<ge> 18
                               \<and> take 18 classNameStr = ''WMP9MediaBarFlyout'' then False
                       else True))))"

definition IsAltTabWindow :: "sys \<Rightarrow> HWND \<Rightarrow> bool" where
  "IsAltTabWindow os hwnd =
     (if \<not> os_IsWindowVisible os hwnd then False
      else if GetAncestor os hwnd GA_ROOTOWNER \<noteq> hwnd then False
      else
        (case DwmGetWindowAttribute os hwnd DWMWA_CLOAKED of
           (err, cloaked) \<Rightarrow>
             if err = None \<and> cloaked = DWM_CLOAKED_SHELL then False
             else
               (let exStyle = GetWindowLongPtrW os hwnd GWL_EXSTYLE in
                  if exStyle AND WS_EX_TOOLWINDOW \<noteq> 0 then False else True)))"

subsection \<open>Icon resolution\<close>

record IconInfo =
  Icon :: HICON
  Source :: string

text \<open>The system calls \<open>GetWindowIcon\<close> can issue, for the trace of those it did issue.\<close>

datatype call =
    CallSendMessage HWND DWORD uintptr uintptr
  | CallGetClassLongPtrW HWND int
  | CallExtractIconExW string
  | CallLoadIconW uintptr uintptr

text \<open>
  \<open>GetWindowIcon\<close> with the list of system calls it made, in the order it made them.
  The Go function returns the first component.
\<close>

definition GetWindowIconTraced :: "sys \<Rightarrow> HWND \<Rightarrow> string \<Rightarrow> IconInfo \<times> call list" where
  "GetWindowIconTraced os hwnd exePath =
     (let icon = SendMessage os hwnd WM_GETICON ICON_BIG 0;
          t1 = [CallSendMessage hwnd WM_GETICON ICON_BIG 0]
      in if icon \<noteq> 0 then (\<lparr>Icon = icon, Source = ''WM_GETICON''\<rparr>, t1)
      else
     (let icon = SendMessage os hwnd WM_GETICON ICON_SMALL 0;
          t2 = t1 @ [CallSendMessage hwnd WM_GETICON ICON_SMALL 0]
      in if icon \<noteq> 0 then (\<lparr>Icon = icon, Source = ''WM_GETICON_S''\<rparr>, t2)
      else
     (let icon = SendMessage os hwnd WM_GETICON ICON_SMALL2 0;
          t3 = t2 @ [CallSendMessage hwnd WM_GETICON ICON_SMALL2 0]
      in if icon \<noteq> 0 then (\<lparr>Icon = icon, Source = ''WM_GETICON_S2''\<rparr>, t3)
      else
     (let ret = fst (GetClassLongPtrW os hwnd GCLP_HICON);
          t4 = t3 @ [CallGetClassLongPtrW hwnd GCLP_HICON]
      in if ret \<noteq> 0 then (\<lparr>Icon = ret, Source = ''GCLP_HICON''\<rparr>, t4)
      else
     (let ret = fst (GetClassLongPtrW os hwnd GCLP_HICONSM);
          t5 = t4 @ [CallGetClassLongPtrW hwnd GCLP_HICONSM];
          fallback = (\<lambda>t. (\<lparr>Icon = LoadIconW os 0 (MAKEINTRESOURCEW IDI_APPLICATION),
                               Source = ''IDI_APPLICATION''\<rparr>,
                             t @ [CallLoadIconW 0 (MAKEINTRESOURCEW IDI_APPLICATION)]))
      in if ret \<noteq> 0 then (\<lparr>Icon = ret, Source = ''GCLP_HICONSM''\<rparr>, t5)
      else if exePath \<noteq> [] then
        (case UTF16PtrFromString exePath of
           (exePathUTF16, err) \<Rightarrow>
             if err = None then
               (case ExtractIconExW os exePathUTF16 of
                  (numIcons, largeIcon) \<Rightarrow>
                    (let t6 = t5 @ [CallExtractIconExW exePathUTF16]
                     in if numIcons > 0 \<and> largeIcon \<noteq> 0
                        then (\<lparr>Icon = largeIcon, Source = ''ExtractIconEx''\<rparr>, t6)
                        else fallback t6))
             else fallback t5)
      else fallback t5)))))"

definition GetWindowIcon :: "sys \<Rightarrow> HWND \<Rightarrow> string \<Rightarrow> IconInfo" where
  "GetWindowIcon os hwnd exePath = fst (GetWindowIconTraced os hwnd exePath)"

text \<open>
  The cascade as the specification words it: an ordered list of strategies, each with
  the label it reports, the system call it makes and the handle that call yields (0 for
  a failure), evaluated in order up to the first success; the stock application icon is
  the last resort and is taken as it comes.
\<close>

type_synonym strategy = "string \<times> call \<times> HICON"

definition iconStrategies_spec :: "sys \<Rightarrow> HWND \<Rightarrow> string \<Rightarrow> strategy list" where
  "iconStrategies_spec os hwnd exePath =
     [(''WM_GETICON'', CallSendMessage hwnd WM_GETICON ICON_BIG 0,
         SendMessage os hwnd WM_GETICON ICON_BIG 0),
      (''WM_GETICON_S'', CallSendMessage hwnd WM_GETICON ICON_SMALL 0,
         SendMessage os hwnd WM_GETICON ICON_SMALL 0),
      (''WM_GETICON_S2'', CallSendMessage hwnd WM_GETICON ICON_SMALL2 0,
         SendMessage os hwnd WM_GETICON ICON_SMALL2 0),
      (''GCLP_HICON'', CallGetClassLongPtrW hwnd GCLP_HICON,
         fst (GetClassLongPtrW os hwnd GCLP_HICON)),
      (''GCLP_HICONSM'', CallGetClassLongPtrW hwnd GCLP_HICONSM,
         fst (GetClassLongPtrW os hwnd GCLP_HICONSM))]
     @ (if exePath \<noteq> [] \<and> snd (UTF16PtrFromString exePath) = None
        then [(''ExtractIconEx'', CallExtractIconExW exePath,
                 (if fst (ExtractIconExW os exePath) > 0
                  then snd (ExtractIconExW os exePath) else 0))]
        else [])"

definition stockIcon_spec :: "sys \<Rightarrow> strategy" where
  "stockIcon_spec os =
     (''IDI_APPLICATION'', CallLoadIconW 0 (MAKEINTRESOURCEW IDI_APPLICATION),
        LoadIconW os 0 (MAKEINTRESOURCEW IDI_APPLICATION))"

fun firstSuccess_spec :: "strategy list \<Rightarrow> strategy \<Rightarrow> IconInfo \<times> call list" where
  "firstSuccess_spec [] (l, q, h) = (\<lparr>Icon = h, Source = l\<rparr>, [q])"
| "firstSuccess_spec ((l, q, h) # rest) fb =
     (if h \<noteq> 0 then (\<lparr>Icon = h, Source = l\<rparr>, [q])
      else (case firstSuccess_spec rest fb of (r, t) \<Rightarrow> (r, q # t)))"

section \<open>The window registry and the refresh pass (package main)\<close>

record UserWindow =
  touched :: bool
  IsForeground :: bool
  LastActive :: int
  Hwnd :: HWND
  Caption :: string
  IconBase64 :: string
  IconSource :: string
  ExePath :: string

text \<open>
  \<open>userWindows\<close> is a \<open>sync.Map\<close> from handles to records: a finite map with one value
  per key. \<open>Range\<close> calls its function once for every key; the order in which it does
  is not specified by Go, and is here the order of the underlying list (a stored key
  keeps its place, a new key goes to the end). The callbacks of this program only store
  to or delete the key they are called with.
\<close>

type_synonym registry = "(HWND, UserWindow) alist"

definition Range :: "('k \<Rightarrow> 'v \<Rightarrow> 's \<Rightarrow> 's) \<Rightarrow> ('k, 'v) alist \<Rightarrow> 's \<Rightarrow> 's" where
  "Range f m s = fold (\<lambda>(key, val). f key val) (DAList.impl_of m) s"

record EnumWindowsResult =
  Window :: HWND
  Error :: "error option"

text \<open>
  \<open>ListDesktopWindows\<close>: the channel's contents, in order. \<open>os_EnumDesktopWindows\<close> gives
  the handles the callback was called with, the raw return value and the last error;
  the wrapper \<open>EnumDesktopWindows\<close> reports the error when the return value is 0, and
  the goroutine then sends one more result carrying it.
\<close>

definition ListDesktopWindows :: "sys \<Rightarrow> EnumWindowsResult list" where
  "ListDesktopWindows os =
     (case os_EnumDesktopWindows os of
        (hwnds, ret, err) \<Rightarrow>
          map (\<lambda>hwnd. \<lparr>Window = hwnd, Error = None\<rparr>) hwnds
          @ (if ret = 0 then [\<lparr>Window = 0, Error = Some (Errno err)\<rparr>] else []))"

text \<open>The executable path of the window's process, or the empty text.\<close>

definition exePathOf :: "sys \<Rightarrow> HWND \<Rightarrow> string" where
  "exePathOf os hWnd =
     (let processId = os_GetWindowThreadProcessId os hWnd in
        case os_OpenProcess os PROCESS_QUERY_LIMITED_INFORMATION processId of
          (hProcess, err) \<Rightarrow>
            if err = None then
              (case QueryFullProcessImageNameW os hProcess of
                 (err, exePathBuf) \<Rightarrow>
                   if err = None then UTF16ToString exePathBuf else [])
            else [])"

text \<open>The body of the loop over the channel, for one result. Log output is left out.\<close>

definition visit :: "sys \<Rightarrow> HWND \<Rightarrow> EnumWindowsResult \<Rightarrow> registry \<Rightarrow> registry" where
  "visit os foreground res userWindows =
     (if Error res \<noteq> None then userWindows
      else
        (let hWnd = Window res in
           if IsAltTabWindow os hWnd then
             (case GetWindowTextW os hWnd of
                (n, err, caption) \<Rightarrow>
                  if err \<noteq> None then userWindows
                  else
                    (let capStr = UTF16ToString caption;
                         exePath = exePathOf os hWnd;
                         iconInfo = GetWindowIcon os hWnd exePath
                     in case os_HICONToBase64Png os (Icon iconInfo) of
                          (iconB64, err) \<Rightarrow>
                            if err \<noteq> None then userWindows
                            else
                              (let isForeground = (foreground = hWnd) in
                                 case DAList.lookup userWindows hWnd of
                                   Some window \<Rightarrow>
                                     DAList.update hWnd
                                       (window\<lparr>touched := True,
                                               Caption := capStr,
                                               IconBase64 := ''data:image/png;base64,'' @ iconB64,
                                               IconSource := Source iconInfo,
                                               IsForeground := isForeground,
                                               ExePath := exePath\<rparr>)
                                       userWindows
                                 | None \<Rightarrow>
                                     DAList.update hWnd
                                       \<lparr>touched = True,
                                        IsForeground = isForeground,
                                        LastActive = 0,
                                        Hwnd = hWnd,
                                        Caption = capStr,
                                        IconBase64 = ''data:image/png;base64,'' @ iconB64,
                                        IconSource = Source iconInfo,
                                        ExePath = exePath\<rparr>
                                       userWindows)))
           else userWindows))"

text \<open>
  \<open>GetAltTabWindows\<close> of the current \<open>main.go\<close>, run from start to end with no step of
  another goroutine on \<open>userWindows\<close> in between: the snapshot it returns and the
  registry it leaves. What two passes do when their steps alternate is modelled further
  down, with \<open>passActions\<close>.
\<close>

definition GetAltTabWindows :: "sys \<Rightarrow> registry \<Rightarrow> UserWindow list \<times> registry" where
  "GetAltTabWindows os userWindows =
     (let foreground = GetForegroundWindow os;
          marked = Range (\<lambda>key window m. DAList.update key (window\<lparr>touched := False\<rparr>) m)
                     userWindows userWindows;
          stored = fold (visit os foreground) (ListDesktopWindows os) marked
      in Range (\<lambda>key window (userWindowsSlice, m).
                  if touched window then (userWindowsSlice @ [window], m)
                  else (userWindowsSlice, DAList.delete key m))
           stored ([], stored))"

text \<open>The events the back end emits to the front end.\<close>

datatype event = userWindowsChanged "UserWindow list"

text \<open>
  The refresh goroutine, \<open>for { Emit(GetAltTabWindows()); <-time.After(time.Second) }\<close>,
  run for the ticks given: one state of the desktop per tick.
\<close>

fun refreshLoop :: "sys list \<Rightarrow> registry \<Rightarrow> event list \<times> registry" where
  "refreshLoop [] userWindows = ([], userWindows)"
| "refreshLoop (os # ticks) userWindows =
     (case GetAltTabWindows os userWindows of
        (snapshot, userWindows') \<Rightarrow>
          (case refreshLoop ticks userWindows' of
             (events, userWindows'') \<Rightarrow> (userWindowsChanged snapshot # events, userWindows'')))"

text \<open>
  The handler of the \<open>activateWindow\<close> event, likewise run with no step of the timer
  goroutine in between. \<open>os\<close> answers \<open>SetForegroundWindow\<close>, \<open>os'\<close> is the desktop the
  refresh that follows sees, and \<open>now\<close> is \<open>int(time.Now().UnixMilli())\<close>. Its steps
  one by one are \<open>activateWindowActions\<close> further down.
\<close>

definition activateWindow ::
  "sys \<Rightarrow> sys \<Rightarrow> int \<Rightarrow> HWND \<Rightarrow> registry \<Rightarrow> event list \<times> registry" where
  "activateWindow os os' now hwnd userWindows =
     (let success = SetForegroundWindow os hwnd in
        if \<not> success then ([], userWindows)
        else
          (case DAList.lookup userWindows hwnd of
             Some window \<Rightarrow>
               (let userWindows1 = DAList.update hwnd (window\<lparr>LastActive := now\<rparr>) userWindows
                in case GetAltTabWindows os' userWindows1 of
                     (snapshot, userWindows2) \<Rightarrow> ([userWindowsChanged snapshot], userWindows2))
           | None \<Rightarrow> ([], userWindows)))"

section \<open>Two goroutines on one registry\<close>

text \<open>
  \<open>GetAltTabWindows\<close> is called from the timer goroutine and, through the
  \<open>activateWindow\<close> handler, from the event goroutine. \<open>userWindows\<close> is shared and the
  program has no lock that keeps two passes apart, so the steps of two passes can
  alternate. \<open>GetAltTabWindows\<close> and \<open>activateWindow\<close> above are the pass and the handler
  as they run when no step of another goroutine falls between their own.

  Here a pass is the list of its steps on the registry: the \<open>Range\<close> that resets
  \<open>touched\<close>, one step for each result of the enumeration, and the \<open>Range\<close> that builds
  the snapshot and deletes. The foreground handle is read once, before the first step.
  Each step is taken as a whole. Every interleaving of two step lists is therefore an
  execution of the program; the program has finer ones as well (inside a \<open>Range\<close>,
  between a \<open>Load\<close> and its \<open>Store\<close>).
\<close>

datatype action =
    Mark
  | Visit sys HWND EnumWindowsResult
  | Sweep
  | Store HWND UserWindow

text \<open>One step: the snapshots it hands back (\<open>Sweep\<close> hands back one) and the registry.\<close>

fun perform :: "action \<Rightarrow> registry \<Rightarrow> UserWindow list list \<times> registry" where
  "perform Mark userWindows =
     ([], Range (\<lambda>key window m. DAList.update key (window\<lparr>touched := False\<rparr>) m)
            userWindows userWindows)"
| "perform (Visit os foreground res) userWindows = ([], visit os foreground res userWindows)"
| "perform Sweep userWindows =
     (case Range (\<lambda>key window (userWindowsSlice, m).
                    if touched window then (userWindowsSlice @ [window], m)
                    else (userWindowsSlice, DAList.delete key m))
             userWindows ([], userWindows) of
        (userWindowsSlice, userWindows') \<Rightarrow> ([userWindowsSlice], userWindows'))"
| "perform (Store hwnd window) userWindows = ([], DAList.update hwnd window userWindows)"

fun runActions :: "action list \<Rightarrow> registry \<Rightarrow> UserWindow list list \<times> registry" where
  "runActions [] userWindows = ([], userWindows)"
| "runActions (a # rest) userWindows =
     (case perform a userWindows of
        (out, userWindows') \<Rightarrow>
          (case runActions rest userWindows' of
             (outs, userWindows'') \<Rightarrow> (out @ outs, userWindows'')))"

text \<open>The steps of one call of \<open>GetAltTabWindows\<close> on the desktop \<open>os\<close>.\<close>

definition passActions :: "sys \<Rightarrow> action list" where
  "passActions os =
     Mark # map (Visit os (GetForegroundWindow os)) (ListDesktopWindows os) @ [Sweep]"

text \<open>
  The steps of the \<open>activateWindow\<close> handler on the registry, where \<open>userWindows\<close> is the
  registry its \<open>Load\<close> reads: none when \<open>SetForegroundWindow\<close> fails or the \<open>Load\<close> finds
  no record, else the \<open>Store\<close> of the record with the new \<open>LastActive\<close> and then a pass,
  whose snapshot it emits.
\<close>

definition activateWindowActions ::
  "sys \<Rightarrow> sys \<Rightarrow> int \<Rightarrow> HWND \<Rightarrow> registry \<Rightarrow> action list" where
  "activateWindowActions os os' now hwnd userWindows =
     (let success = SetForegroundWindow os hwnd in
        if \<not> success then []
        else
          (case DAList.lookup userWindows hwnd of
             Some window \<Rightarrow> Store hwnd (window\<lparr>LastActive := now\<rparr>) # passActions os'
           | None \<Rightarrow> []))"

text \<open>
  An interleaving of two step lists, chosen by a schedule: \<open>True\<close> takes the next step
  of the first list, \<open>False\<close> of the second; when the schedule or one list is used up,
  what is left follows.
\<close>

fun interleave :: "bool list \<Rightarrow> 'a list \<Rightarrow> 'a list \<Rightarrow> 'a list" where
  "interleave [] xs ys = xs @ ys"
| "interleave (b # bs) [] ys = ys"
| "interleave (b # bs) xs [] = xs"
| "interleave (True # bs) (x # xs) ys = x # interleave bs xs ys"
| "interleave (False # bs) xs (y # ys) = y # interleave bs xs ys"

section \<open>The revision of \<open>main.go\<close> that keeps an ordered window list\<close>

text \<open>
  This revision keeps, beside \<open>userWindows\<close>, the slice \<open>windowsOrder\<close> of handles in
  the order they were first stored. Its \<open>UserWindow\<close> has five fields.
\<close>

record OrderedUserWindow =
  ord_touched :: bool
  ord_IsForeground :: bool
  ord_Hwnd :: HWND
  ord_Caption :: string
  ord_IconBase64 :: string

type_synonym orderedRegistry = "(HWND, OrderedUserWindow) alist"

text \<open>
  \<open>slices.Delete(s, i, j)\<close> works in place: with \<open>mem\<close> the backing array and \<open>len\<close>
  the length of \<open>s\<close>, it moves \<open>s[j:]\<close> down to index \<open>i\<close> and returns the array and
  the new length. From Go 1.22 on it also zeroes the elements between the new and the
  old length (\<open>clears\<close>); Go 1.21 leaves them as they were. It panics (\<open>None\<close>) when the
  bounds are not \<open>0 \<le> i \<le> j \<le> len\<close>.
\<close>

definition slices_Delete :: "bool \<Rightarrow> HWND list \<Rightarrow> nat \<Rightarrow> int \<Rightarrow> int \<Rightarrow> (HWND list \<times> nat) option" where
  "slices_Delete clears mem len i j =
     (if 0 \<le> i \<and> i \<le> j \<and> j \<le> int len then
        (let s = take len mem;
             kept = take (nat i) s @ drop (nat j) s;
             tail = (if clears then replicate (nat j - nat i) 0 else drop (length kept) s)
         in Some (kept @ tail @ drop len mem, length kept))
      else None)"

text \<open>
  One iteration of \<open>for i, hwnd := range windowsOrder\<close>, at index \<open>k\<close>. The range
  expression is evaluated once, so the loop runs over the indices of the slice as it
  was on entry and reads \<open>hwnd\<close> from the backing array, which the deletions of
  earlier iterations have already shifted. The state is the backing array, the current
  length of \<open>windowsOrder\<close>, \<open>offset\<close> and \<open>userWindows\<close>.
\<close>

type_synonym pruneState = "HWND list \<times> nat \<times> int \<times> orderedRegistry"

definition pruneStep :: "bool \<Rightarrow> nat \<Rightarrow> pruneState \<Rightarrow> pruneState option" where
  "pruneStep clears k st =
     (case st of
        (mem, len, offset, userWindows) \<Rightarrow>
          (let hwnd = mem ! k;
               i = int k - offset;
               found = DAList.lookup userWindows hwnd
           in if found = None \<or> \<not> ord_touched (the found) then
                (case slices_Delete clears mem len i (i + 1) of
                   None \<Rightarrow> None
                 | Some (mem', len') \<Rightarrow>
                     Some (mem', len', offset + 1,
                           if found \<noteq> None then DAList.delete hwnd userWindows
                           else userWindows))
              else Some st))"

fun pruneLoop :: "bool \<Rightarrow> nat list \<Rightarrow> pruneState \<Rightarrow> pruneState option" where
  "pruneLoop clears [] st = Some st"
| "pruneLoop clears (k # ks) st =
     (case pruneStep clears k st of None \<Rightarrow> None | Some st' \<Rightarrow> pruneLoop clears ks st')"

text \<open>The prune at the end of the pass: the new \<open>windowsOrder\<close> and \<open>userWindows\<close>.\<close>

definition EndSweep ::
  "bool \<Rightarrow> HWND list \<Rightarrow> orderedRegistry \<Rightarrow> (HWND list \<times> orderedRegistry) option" where
  "EndSweep clears windowsOrder userWindows =
     (case pruneLoop clears [0..<length windowsOrder]
             (windowsOrder, length windowsOrder, 0, userWindows) of
        None \<Rightarrow> None
      | Some (mem, len, offset, userWindows') \<Rightarrow> Some (take len mem, userWindows'))"

text \<open>The snapshot: the records of the handles of \<open>windowsOrder\<close>, in its order.\<close>

definition orderedSnapshot :: "HWND list \<Rightarrow> orderedRegistry \<Rightarrow> OrderedUserWindow list" where
  "orderedSnapshot windowsOrder userWindows =
     concat (map (\<lambda>hwnd. case DAList.lookup userWindows hwnd of
                            Some window \<Rightarrow> [window] | None \<Rightarrow> []) windowsOrder)"

text \<open>
  The callback of \<open>EnumDesktopWindows\<close> in this revision. \<open>getWindowIcon\<close> is the
  one-argument \<open>win32.GetWindowIcon\<close> of that revision.
\<close>

definition orderedCallback ::
  "sys \<Rightarrow> (HWND \<Rightarrow> HICON) \<Rightarrow> HWND \<Rightarrow> HWND \<Rightarrow> HWND list \<times> orderedRegistry
     \<Rightarrow> HWND list \<times> orderedRegistry" where
  "orderedCallback os getWindowIcon foreground hWnd st =
     (case st of
        (windowsOrder, userWindows) \<Rightarrow>
          if IsAltTabWindow os hWnd then
            (case GetWindowTextW os hWnd of
               (n, err, caption) \<Rightarrow>
                 if err \<noteq> None then st
                 else
                   (let capStr = UTF16ToString caption;
                        icon = getWindowIcon hWnd
                    in case os_HICONToBase64Png os icon of
                         (iconB64, err) \<Rightarrow>
                           if err \<noteq> None then st
                           else
                             (let isForeground = (foreground = hWnd);
                                  existed = (DAList.lookup userWindows hWnd \<noteq> None);
                                  userWindows' =
                                    DAList.update hWnd
                                      \<lparr>ord_touched = True,
                                       ord_IsForeground = isForeground,
                                       ord_Hwnd = hWnd,
                                       ord_Caption = capStr,
                                       ord_IconBase64 = iconB64\<rparr>
                                      userWindows
                              in if \<not> existed then (windowsOrder @ [hWnd], userWindows')
                                 else (windowsOrder, userWindows'))))
          else st)"

text \<open>How a call can end other than by returning: \<open>log.Fatalf\<close>, or a panic.\<close>

datatype exit = Fatal string | Panic

definition GetAltTabWindows_ordered ::
  "bool \<Rightarrow> (HWND \<Rightarrow> HICON) \<Rightarrow> sys \<Rightarrow> HWND list \<times> orderedRegistry
     \<Rightarrow> exit + OrderedUserWindow list \<times> HWND list \<times> orderedRegistry" where
  "GetAltTabWindows_ordered clears getWindowIcon os st =
     (case st of
        (windowsOrder, userWindows) \<Rightarrow>
          (let foreground = GetForegroundWindow os;
               marked = Range (\<lambda>key window m. DAList.update key (window\<lparr>ord_touched := False\<rparr>) m)
                          userWindows userWindows
           in case os_EnumDesktopWindows os of
                (hwnds, ret, err) \<Rightarrow>
                  (case fold (orderedCallback os getWindowIcon foreground) hwnds
                          (windowsOrder, marked) of
                     (windowsOrder1, userWindows1) \<Rightarrow>
                       if ret = 0 then Inl (Fatal ''Failed to enumerate windows'')
                       else
                         (case EndSweep clears windowsOrder1 userWindows1 of
                            None \<Rightarrow> Inl Panic
                          | Some (windowsOrder2, userWindows2) \<Rightarrow>
                              Inr (orderedSnapshot windowsOrder2 userWindows2,
                                   windowsOrder2, userWindows2)))))"

text \<open>
  The refresh goroutine of this revision, for the ticks given: the snapshots it
  publishes and, when a pass ends the process, how.
\<close>

fun refreshLoop_ordered ::
  "bool \<Rightarrow> (HWND \<Rightarrow> HICON) \<Rightarrow> sys list \<Rightarrow> HWND list \<times> orderedRegistry
     \<Rightarrow> OrderedUserWindow list list \<times> exit option" where
  "refreshLoop_ordered clears getWindowIcon [] st = ([], None)"
| "refreshLoop_ordered clears getWindowIcon (os # ticks) st =
     (case GetAltTabWindows_ordered clears getWindowIcon os st of
        Inl e \<Rightarrow> ([], Some e)
      | Inr (snapshot, st') \<Rightarrow>
          (case refreshLoop_ordered clears getWindowIcon ticks st' of
             (snapshots, e) \<Rightarrow> (snapshot # snapshots, e)))"

section \<open>The front end's selection step (\<open>App.tsx\<close>)\<close>

text \<open>\<open>Array.prototype.findIndex\<close>: the first index whose element satisfies \<open>p\<close>, or -1.\<close>

fun findIndex :: "('a \<Rightarrow> bool) \<Rightarrow> 'a list \<Rightarrow> int" where
  "findIndex p [] = -1"
| "findIndex p (x # xs) =
     (if p x then 0 else (let i = findIndex p xs in if i < 0 then -1 else i + 1))"

text \<open>\<open>xs[i]\<close> in JavaScript: \<open>undefined\<close> (here \<open>None\<close>) outside the array.\<close>

definition at :: "'a list \<Rightarrow> int \<Rightarrow> 'a option" where
  "at xs i = (if 0 \<le> i \<and> i < int (length xs) then Some (xs ! nat i) else None)"

text \<open>JavaScript's \<open>%\<close>: the remainder has the sign of the dividend.\<close>

definition js_rem :: "int \<Rightarrow> int \<Rightarrow> int" where
  "js_rem a b = sgn a * (\<bar>a\<bar> mod \<bar>b\<bar>)"

text \<open>
  The state update of the \<open>systemKeyPressed\<close> handler for the key \<open>tab\<close>:
  \<open>selectedWindow\<close> is a handle or \<open>null\<close>, and the handler fixes \<open>direction\<close> to
  \<open>next\<close>.
\<close>

definition nextSelected :: "string \<Rightarrow> UserWindow list \<Rightarrow> HWND option \<Rightarrow> HWND option" where
  "nextSelected direction windows selectedWindow =
     (let currentIndex = findIndex (\<lambda>window. Some (Hwnd window) = selectedWindow) windows;
          n = (if length windows = 0 then 1 else int (length windows));
          nextIndex = (if direction = ''next'' then js_rem (currentIndex + 1) n
                       else js_rem (currentIndex - 1 + n) n)
      in case at windows nextIndex of
           Some window \<Rightarrow> Some (Hwnd window)
         | None \<Rightarrow> (case at windows 0 of Some window \<Rightarrow> Some (Hwnd window) | None \<Rightarrow> None))"

definition systemKeyPressed_tab :: "UserWindow list \<Rightarrow> HWND option \<Rightarrow> HWND option" where
  "systemKeyPressed_tab windows selectedWindow = nextSelected ''next'' windows selectedWindow"

section \<open>Notions the properties are stated with\<close>

text \<open>
  A window handle makes it into the registry during a pass exactly when the classifier
  accepts it, the caption query returns no error and the icon converts.
\<close>

definition accepted :: "sys \<Rightarrow> HWND \<Rightarrow> bool" where
  "accepted os hWnd \<longleftrightarrow>
     IsAltTabWindow os hWnd \<and>
     fst (snd (GetWindowTextW os hWnd)) = None \<and>
     snd (os_HICONToBase64Png os (Icon (GetWindowIcon os hWnd (exePathOf os hWnd)))) = None"

text \<open>The record \<open>visit\<close> stores for an accepted handle, from the one it found.\<close>

definition storedRecord :: "sys \<Rightarrow> HWND \<Rightarrow> HWND \<Rightarrow> UserWindow option \<Rightarrow> UserWindow" where
  "storedRecord os foreground hWnd found =
     (let capStr = UTF16ToString (snd (snd (GetWindowTextW os hWnd)));
          exePath = exePathOf os hWnd;
          iconInfo = GetWindowIcon os hWnd exePath;
          iconB64 = fst (os_HICONToBase64Png os (Icon iconInfo))
      in case found of
           Some window \<Rightarrow>
             window\<lparr>touched := True,
                     Caption := capStr,
                     IconBase64 := ''data:image/png;base64,'' @ iconB64,
                     IconSource := Source iconInfo,
                     IsForeground := (foreground = hWnd),
                     ExePath := exePath\<rparr>
         | None \<Rightarrow>
             \<lparr>touched = True,
              IsForeground = (foreground = hWnd),
              LastActive = 0,
              Hwnd = hWnd,
              Caption = capStr,
              IconBase64 = ''data:image/png;base64,'' @ iconB64,
              IconSource = Source iconInfo,
              ExePath = exePath\<rparr>)"

text \<open>Every record is stored under its own handle.\<close>

definition registry_ok :: "registry \<Rightarrow> bool" where
  "registry_ok userWindows = list_all (\<lambda>(key, window). Hwnd window = key) (DAList.impl_of userWindows)"

section \<open>Concrete desktops\<close>

text \<open>
  \<open>os_idle\<close> is a desktop on which every query fails or answers 0, except that the
  stock application icon loads and a non-null icon converts. \<open>desktop hwnds fg\<close> shows
  the windows \<open>hwnds\<close>, each visible, its own root owner, titled, of class Notepad,
  with \<open>fg\<close> in the foreground.
\<close>

definition os_idle :: sys where
  "os_idle =
     \<lparr>os_IsWindowVisible = (\<lambda>hwnd. False),
      os_GetAncestor = (\<lambda>hwnd gaFlags. 0),
      os_DwmGetWindowAttribute = (\<lambda>hwnd attr. (0, 0)),
      os_GetWindowLongPtrW = (\<lambda>hwnd nIndex. 0),
      os_GetLastActivePopup = (\<lambda>hwnd. 0),
      os_GetClassNameW = (\<lambda>hwnd. (0, 1400, [])),
      os_GetWindowTextW = (\<lambda>hwnd. (0, 1400, [])),
      os_SendMessageW = (\<lambda>hwnd msg wParam lParam. 0),
      os_GetClassLongPtrW = (\<lambda>hwnd nIndex. (0, 1400)),
      os_ExtractIconExW = (\<lambda>path. (0, 0)),
      os_LoadIconW = (\<lambda>hInstance name. if hInstance = 0 \<and> name = 32512 then 0x10003 else 0),
      os_GetForegroundWindow = 0,
      os_SetForegroundWindow = (\<lambda>hwnd. 0),
      os_GetWindowThreadProcessId = (\<lambda>hwnd. 0),
      os_OpenProcess = (\<lambda>access pid. (0, Some (Errno 87))),
      os_QueryFullProcessImageNameW = (\<lambda>hProcess. (0, 87, [])),
      os_EnumDesktopWindows = ([], 1, 0),
      os_HICONToBase64Png =
        (\<lambda>icon. if icon = 0 then ([], Some (Errorf ''GetIconInfo failed''))
                else (''iVBORw0KGgo='', None))\<rparr>"

definition desktop :: "HWND list \<Rightarrow> HWND \<Rightarrow> sys" where
  "desktop hwnds fg =
     os_idle
       \<lparr>os_IsWindowVisible := (\<lambda>hwnd. hwnd \<in> set hwnds),
        os_GetAncestor := (\<lambda>hwnd gaFlags. hwnd),
        os_GetLastActivePopup := (\<lambda>hwnd. hwnd),
        os_GetClassNameW := (\<lambda>hwnd. (7, 0, ''Notepad'')),
        os_GetWindowTextW := (\<lambda>hwnd. (8, 0, ''Untitled'')),
        os_GetForegroundWindow := fg,
        os_SetForegroundWindow := (\<lambda>hwnd. if hwnd \<in> set hwnds then 1 else 0),
        os_EnumDesktopWindows := (hwnds, 1, 0)\<rparr>"


text \<open>A record as the front end receives it, for the handle given.\<close>

definition win :: "HWND \<Rightarrow> UserWindow" where
  "win hwnd =
     \<lparr>touched = True, IsForeground = False, LastActive = 0, Hwnd = hwnd, Caption = ''Untitled'',
      IconBase64 = ''data:image/png;base64,iVBORw0KGgo='', IconSource = ''IDI_APPLICATION'',
      ExePath = []\<rparr>"

text \<open>A record of the ordered revision, touched or not.\<close>

definition ordWin :: "HWND \<Rightarrow> bool \<Rightarrow> OrderedUserWindow" where
  "ordWin hwnd t =
     \<lparr>ord_touched = t, ord_IsForeground = False, ord_Hwnd = hwnd, ord_Caption = ''Untitled'',
      ord_IconBase64 = ''iVBORw0KGgo=''\<rparr>"

text \<open>The registry of the ordered revision holding the handles given, each touched or not.\<close>

definition ordRegistry :: "(HWND \<times> bool) list \<Rightarrow> orderedRegistry" where
  "ordRegistry entries = fold (\<lambda>(hwnd, t). DAList.update hwnd (ordWin hwnd t)) entries DAList.empty"

text \<open>What a test of the ordered revision looks at: \<open>windowsOrder\<close>, and for each of the
  handles asked about whether \<open>userWindows\<close> has a record of it and whether that is
  touched.\<close>

definition observe ::
  "HWND list \<Rightarrow> HWND list \<times> orderedRegistry \<Rightarrow> HWND list \<times> bool option list" where
  "observe hwnds st =
     (case st of
        (windowsOrder, userWindows) \<Rightarrow>
          (windowsOrder, map (\<lambda>hwnd. map_option ord_touched (DAList.lookup userWindows hwnd)) hwnds))"

text \<open>Two passes of the ordered revision from the empty registry, on the desktops given:
  the handles of the second snapshot and the final \<open>windowsOrder\<close>.\<close>

definition twoPasses :: "bool \<Rightarrow> sys \<Rightarrow> sys \<Rightarrow> (HWND list \<times> HWND list) option" where
  "twoPasses clears os1 os2 =
     (case GetAltTabWindows_ordered clears (\<lambda>hwnd. 0x10003) os1 ([], DAList.empty) of
        Inl e \<Rightarrow> None
      | Inr (snapshot1, st1) \<Rightarrow>
          (case GetAltTabWindows_ordered clears (\<lambda>hwnd. 0x10003) os2 st1 of
             Inl e \<Rightarrow> None
           | Inr (snapshot2, windowsOrder2, userWindows2) \<Rightarrow>
               Some (map ord_Hwnd snapshot2, windowsOrder2)))"

section \<open>Properties\<close>

subsection \<open>The popup walk\<close>

lemma popUpLoop_spec:
  assumes "cur = popupChain popup hwnd n"
  shows "case popUpLoop popup visible level n cur of (r, m) \<Rightarrow>
     (if level > 0 then
        n < m \<and> m \<le> n + nat level \<and>
        (\<forall>k. n \<le> k \<and> k < m - 1 \<longrightarrow> \<not> visible k (popupChain popup hwnd (Suc k)) \<and> popupChain popup hwnd (Suc k) \<noteq> popupChain popup hwnd k) \<and>
        ((visible (m - 1) r \<and> r = popupChain popup hwnd m) \<or>
         (r = 0 \<and> \<not> visible (m - 1) (popupChain popup hwnd m) \<and>
            (popupChain popup hwnd m = popupChain popup hwnd (m - 1) \<or> m = n + nat level)))
      else r = 0 \<and> m = n)"
  using assms
proof (induction popup visible level n cur rule: popUpLoop.induct)
  case (1 popup visible level n cur)
  show ?case
  proof (cases "level > 0")
    case False
    then show ?thesis by (subst popUpLoop.simps) simp
  next
    case True
    note L = this
    show ?thesis
    proof (cases "visible n (popup n cur) \<or> popup n cur = cur")
      case True
      with L 1(2) show ?thesis by (subst popUpLoop.simps) (auto simp: Let_def)
    next
      case False
      have c: "popup n cur = popupChain popup hwnd (Suc n)" using 1(2) by simp
      obtain r m where rm: "popUpLoop popup visible (level - 1) (Suc n) (popup n cur) = (r, m)"
        by (cases "popUpLoop popup visible (level - 1) (Suc n) (popup n cur)")
      have eq: "popUpLoop popup visible level n cur = (r, m)"
        using rm L False by (subst popUpLoop.simps) (auto simp: Let_def)
      from 1(1) [OF L refl _ _ c] False
      have IH: "case popUpLoop popup visible (level - 1) (Suc n) (popup n cur) of (r, m) \<Rightarrow>
     (if level - 1 > 0 then
        Suc n < m \<and> m \<le> Suc n + nat (level - 1) \<and>
        (\<forall>k. Suc n \<le> k \<and> k < m - 1 \<longrightarrow> \<not> visible k (popupChain popup hwnd (Suc k)) \<and> popupChain popup hwnd (Suc k) \<noteq> popupChain popup hwnd k) \<and>
        ((visible (m - 1) r \<and> r = popupChain popup hwnd m) \<or>
         (r = 0 \<and> \<not> visible (m - 1) (popupChain popup hwnd m) \<and>
            (popupChain popup hwnd m = popupChain popup hwnd (m - 1) \<or> m = Suc n + nat (level - 1))))
      else r = 0 \<and> m = Suc n)" by auto
      show ?thesis
      proof (cases "level - 1 > 0")
        case True
        with IH rm have A: "Suc n < m" "m \<le> Suc n + nat (level - 1)"
          "(\<forall>k. Suc n \<le> k \<and> k < m - 1 \<longrightarrow> \<not> visible k (popupChain popup hwnd (Suc k)) \<and> popupChain popup hwnd (Suc k) \<noteq> popupChain popup hwnd k)"
          "((visible (m - 1) r \<and> r = popupChain popup hwnd m) \<or>
         (r = 0 \<and> \<not> visible (m - 1) (popupChain popup hwnd m) \<and>
            (popupChain popup hwnd m = popupChain popup hwnd (m - 1) \<or> m = Suc n + nat (level - 1))))"
          by auto
        have B: "\<forall>k. n \<le> k \<and> k < m - 1 \<longrightarrow> \<not> visible k (popupChain popup hwnd (Suc k)) \<and> popupChain popup hwnd (Suc k) \<noteq> popupChain popup hwnd k"
        proof (intro allI impI)
          fix k assume k: "n \<le> k \<and> k < m - 1"
          show "\<not> visible k (popupChain popup hwnd (Suc k)) \<and> popupChain popup hwnd (Suc k) \<noteq> popupChain popup hwnd k"
          proof (cases "k = n")
            case True
            with False c 1(2) show ?thesis by auto
          next
            case False
            with k A(3) show ?thesis by auto
          qed
        qed
        have C: "Suc n + nat (level - 1) = n + nat level" using L by auto
        from A B C L show ?thesis unfolding eq by auto
      next
        case F: False
        with IH rm have A: "r = 0" "m = Suc n" by auto
        have l1: "level = 1" using F L by auto
        from A l1 False c 1(2) show ?thesis unfolding eq by auto
      qed
    qed
  qed
qed

text \<open>
  C10. For every handle and every sequence of answers of the last-active-popup and
  visibility queries, the walk of \<open>GetLastVisibleActivePopUpOfWindow\<close> runs at least one
  and at most 50 iterations. With \<open>m\<close> the number of iterations run and \<open>popupChain\<close>
  the handles the walk went through: in every iteration before the last the popup found
  was not visible and differed from the handle before it; the walk returns either the
  popup found in its last iteration, whose visibility query answered true, or 0, and
  then that popup was not visible and either repeated the handle before it (a fixed
  point) or the bound of 50 iterations was reached. What
  \<open>GetLastVisibleActivePopUpOfWindow\<close> returns is the result of this walk on the answers
  of the operating system.
\<close>

theorem popup_walk_first_stop:
  "(case lastVisibleActivePopUp popup visible hwnd of
      (r, m) \<Rightarrow>
        0 < m \<and> m \<le> 50 \<and>
        (\<forall>k. k < m - 1 \<longrightarrow>
               \<not> visible k (popupChain popup hwnd (Suc k)) \<and>
               popupChain popup hwnd (Suc k) \<noteq> popupChain popup hwnd k) \<and>
        ((visible (m - 1) r \<and> r = popupChain popup hwnd m) \<or>
         (r = 0 \<and> \<not> visible (m - 1) (popupChain popup hwnd m) \<and>
            (popupChain popup hwnd m = popupChain popup hwnd (m - 1) \<or> m = 50)))) \<and>
   GetLastVisibleActivePopUpOfWindow os hwnd =
     fst (lastVisibleActivePopUp (\<lambda>n. os_GetLastActivePopup os) (\<lambda>n. os_IsWindowVisible os) hwnd)"
proof
  show "case lastVisibleActivePopUp popup visible hwnd of
      (r, m) \<Rightarrow>
        0 < m \<and> m \<le> 50 \<and>
        (\<forall>k. k < m - 1 \<longrightarrow>
               \<not> visible k (popupChain popup hwnd (Suc k)) \<and>
               popupChain popup hwnd (Suc k) \<noteq> popupChain popup hwnd k) \<and>
        ((visible (m - 1) r \<and> r = popupChain popup hwnd m) \<or>
         (r = 0 \<and> \<not> visible (m - 1) (popupChain popup hwnd m) \<and>
            (popupChain popup hwnd m = popupChain popup hwnd (m - 1) \<or> m = 50)))"
    using popUpLoop_spec [where cur = hwnd and popup = popup and hwnd = hwnd and n = 0
        and visible = visible and level = MaxLastActivePopupIterations]
    by (auto simp: lastVisibleActivePopUp_def MaxLastActivePopupIterations_def split: prod.splits)
next
  have "GetLastActivePopup os = os_GetLastActivePopup os"
    by (intro ext) (simp add: GetLastActivePopup_def)
  then show "GetLastVisibleActivePopUpOfWindow os hwnd =
     fst (lastVisibleActivePopUp (\<lambda>n. os_GetLastActivePopup os) (\<lambda>n. os_IsWindowVisible os) hwnd)"
    by (simp add: GetLastVisibleActivePopUpOfWindow_def)
qed

text \<open>
  A chain 0, 1, 2, 3 whose first visible popup is 3: the walk runs three iterations and
  returns 3.
\<close>

lemma walk_example:
  "lastVisibleActivePopUp (\<lambda>n h. h + 1) (\<lambda>n h. h = 3) 0 = (3, 3)"
  by code_simp

theorem popup_walk_first_stop_witness:
  "lastVisibleActivePopUp (\<lambda>n h. h + 1) (\<lambda>n h. h = 3) 0 = (3, 3) \<and>
   (1 :: nat) < 3 - 1 \<and>
   \<not> (popupChain (\<lambda>n h. h + 1) 0 (Suc 1) = 3) \<and>
   popupChain (\<lambda>n h. h + 1) 0 (Suc 1) \<noteq> popupChain (\<lambda>n h. h + 1) 0 1 \<and>
   popupChain (\<lambda>n h. h + 1) 0 3 = 3 \<and>
   GetLastVisibleActivePopUpOfWindow
     (os_idle\<lparr>os_GetLastActivePopup := (\<lambda>h. h + 1), os_IsWindowVisible := (\<lambda>h. h = 3)\<rparr>) 0 = 3"
proof -
  let ?os = "os_idle\<lparr>os_GetLastActivePopup := (\<lambda>h. h + 1), os_IsWindowVisible := (\<lambda>h. h = 3)\<rparr>"
  note t = popup_walk_first_stop [where popup = "\<lambda>n h. h + 1" and visible = "\<lambda>n h. h = 3"
      and hwnd = 0 and os = ?os]
  have k: "(1 :: nat) < 3 - 1" by simp
  from t have a: "\<forall>k. k < 3 - 1 \<longrightarrow>
               \<not> (popupChain (\<lambda>n h. h + 1) 0 (Suc k) = 3) \<and>
               popupChain (\<lambda>n h. h + 1) 0 (Suc k) \<noteq> popupChain (\<lambda>n h. h + 1) 0 k"
    unfolding walk_example by simp
  from a k have b: "\<not> (popupChain (\<lambda>n h. h + 1) 0 (Suc 1) = 3) \<and>
      popupChain (\<lambda>n h. h + 1) 0 (Suc 1) \<noteq> popupChain (\<lambda>n h. h + 1) 0 1" by blast
  from t have c: "popupChain (\<lambda>n h. h + 1) 0 3 = 3"
    unfolding walk_example by simp
  from t have "GetLastVisibleActivePopUpOfWindow ?os 0 =
      fst (lastVisibleActivePopUp (\<lambda>n. os_GetLastActivePopup ?os) (\<lambda>n. os_IsWindowVisible ?os) 0)"
    by (rule conjunct2)
  then have d: "GetLastVisibleActivePopUpOfWindow ?os 0 = 3"
    by (simp add: walk_example)
  from walk_example k b c d show ?thesis by blast
qed

subsection \<open>The eligibility classifier\<close>

lemma IsAltTabWindow_iff:
  "IsAltTabWindow os hwnd \<longleftrightarrow>
     os_IsWindowVisible os hwnd \<and> GetAncestor os hwnd GA_ROOTOWNER = hwnd \<and>
     \<not> (fst (DwmGetWindowAttribute os hwnd DWMWA_CLOAKED) = None \<and>
          snd (DwmGetWindowAttribute os hwnd DWMWA_CLOAKED) = DWM_CLOAKED_SHELL) \<and>
     GetWindowLongPtrW os hwnd GWL_EXSTYLE AND WS_EX_TOOLWINDOW = 0"
  by (auto simp: IsAltTabWindow_def Let_def split: prod.splits)

text \<open>
  C5, at the input where it fails. The window 1 is visible, its own root owner and no
  tool window; the cloaking query succeeds and answers 3, the flags
  \<open>DWM_CLOAKED_APP\<close> and \<open>DWM_CLOAKED_SHELL\<close> together: the shell has cloaked the
  window. \<open>IsAltTabWindow\<close> compares the attribute with \<open>DWM_CLOAKED_SHELL\<close> for
  equality, so it returns true.
\<close>

theorem IsAltTabWindow_shell_and_app_cloaked:
  "DwmGetWindowAttribute
      ((desktop [1] 1)\<lparr>os_DwmGetWindowAttribute := (\<lambda>hwnd attr. (0, 3))\<rparr>) 1 DWMWA_CLOAKED
      = (None, DWM_CLOAKED_APP OR DWM_CLOAKED_SHELL) \<and>
   IsAltTabWindow ((desktop [1] 1)\<lparr>os_DwmGetWindowAttribute := (\<lambda>hwnd attr. (0, 3))\<rparr>) 1 = True"
  by (simp add: IsAltTabWindow_iff desktop_def os_idle_def DwmGetWindowAttribute_def
      GetAncestor_def GetWindowLongPtrW_def DWM_CLOAKED_APP_def DWM_CLOAKED_SHELL_def)

text \<open>
  C3 as stated fails: on a desktop where the cloaking query for window 1 fails with
  \<open>E_HANDLE\<close>, \<open>IsAltTabWindow\<close> still reports the window eligible.
\<close>

theorem cloaking_query_failure_counterexample:
  "fst (DwmGetWindowAttribute
          ((desktop [1] 1)\<lparr>os_DwmGetWindowAttribute := (\<lambda>hwnd attr. (0x80070006, 0))\<rparr>)
          1 DWMWA_CLOAKED) \<noteq> None \<and>
   IsAltTabWindow
     ((desktop [1] 1)\<lparr>os_DwmGetWindowAttribute := (\<lambda>hwnd attr. (0x80070006, 0))\<rparr>) 1"
  by (simp add: IsAltTabWindow_iff desktop_def os_idle_def DwmGetWindowAttribute_def
      GetAncestor_def GetWindowLongPtrW_def)

text \<open>
  C3, amended. Of the queries the classifiers issue, two report failure to their
  caller. When the class-name query fails, \<open>EligibleForActivation\<close> returns
  not eligible. When the cloaking-attribute query fails, \<open>IsAltTabWindow\<close> skips the
  cloaking condition: the window is eligible exactly when it is visible, its own root
  owner and carries no tool-window style bit.
\<close>

theorem classification_query_failures:
  "(fst (snd (GetClassNameW os hwnd)) \<noteq> None \<longrightarrow>
      \<not> EligibleForActivation os hwnd shellWindow) \<and>
   (fst (DwmGetWindowAttribute os hwnd DWMWA_CLOAKED) \<noteq> None \<longrightarrow>
      IsAltTabWindow os hwnd =
        (os_IsWindowVisible os hwnd \<and> GetAncestor os hwnd GA_ROOTOWNER = hwnd \<and>
         GetWindowLongPtrW os hwnd GWL_EXSTYLE AND WS_EX_TOOLWINDOW = 0))"
  by (auto simp: IsAltTabWindow_iff EligibleForActivation_def Let_def split: prod.splits)

theorem classification_query_failures_witness:
  "fst (snd (GetClassNameW
       ((desktop [1] 1)\<lparr>os_GetClassNameW := (\<lambda>hwnd. (0, 1400, [])),
                         os_DwmGetWindowAttribute := (\<lambda>hwnd attr. (0x80070006, 0))\<rparr>) 1)) \<noteq> None \<and>
   \<not> EligibleForActivation
       ((desktop [1] 1)\<lparr>os_GetClassNameW := (\<lambda>hwnd. (0, 1400, [])),
                         os_DwmGetWindowAttribute := (\<lambda>hwnd attr. (0x80070006, 0))\<rparr>) 1 0 \<and>
   fst (DwmGetWindowAttribute
       ((desktop [1] 1)\<lparr>os_GetClassNameW := (\<lambda>hwnd. (0, 1400, [])),
                         os_DwmGetWindowAttribute := (\<lambda>hwnd attr. (0x80070006, 0))\<rparr>)
       1 DWMWA_CLOAKED) \<noteq> None \<and>
   IsAltTabWindow
       ((desktop [1] 1)\<lparr>os_GetClassNameW := (\<lambda>hwnd. (0, 1400, [])),
                         os_DwmGetWindowAttribute := (\<lambda>hwnd attr. (0x80070006, 0))\<rparr>) 1"
  using classification_query_failures
    [of "(desktop [1] 1)\<lparr>os_GetClassNameW := (\<lambda>hwnd. (0, 1400, [])),
                           os_DwmGetWindowAttribute := (\<lambda>hwnd attr. (0x80070006, 0))\<rparr>" 1 0]
  by (simp add: desktop_def os_idle_def DwmGetWindowAttribute_def GetClassNameW_def
      GetAncestor_def GetWindowLongPtrW_def WS_EX_TOOLWINDOW_def)

subsection \<open>Icon resolution\<close>

lemma GetWindowIconTraced_cascade:
  "GetWindowIconTraced os hwnd exePath =
     firstSuccess_spec (iconStrategies_spec os hwnd exePath) (stockIcon_spec os)"
  by (auto simp: GetWindowIconTraced_def iconStrategies_spec_def stockIcon_spec_def Let_def
      UTF16PtrFromString_def split: prod.splits)

lemma firstSuccess_spec_closed:
  "firstSuccess_spec ss fb =
     (\<lparr>Icon = snd (snd ((ss @ [fb]) ! length (takeWhile (\<lambda>s. snd (snd s) = 0) ss))),
       Source = fst ((ss @ [fb]) ! length (takeWhile (\<lambda>s. snd (snd s) = 0) ss))\<rparr>,
      map (\<lambda>s. fst (snd s)) (take (Suc (length (takeWhile (\<lambda>s. snd (snd s) = 0) ss))) (ss @ [fb])))"
proof (induction ss)
  case Nil
  then show ?case by (cases fb) simp
next
  case (Cons s ss)
  then show ?case by (cases s) simp
qed

lemma firstSuccess_spec_null:
  "Icon (fst (firstSuccess_spec ss fb)) = 0 \<longleftrightarrow> list_all (\<lambda>s. snd (snd s) = 0) (ss @ [fb])"
proof (induction ss)
  case Nil
  show ?case by (cases fb) simp
next
  case (Cons s ss)
  then show ?case by (cases s) (auto split: prod.splits)
qed

text \<open>
  C6 as stated fails in its last part. The last resort returns what \<open>LoadIconW\<close> gave,
  unchecked: for a window with no icon of its own or of its class and no executable
  path, on a system where loading the stock icon returns 0, \<open>GetWindowIcon\<close> returns the
  null handle under the label \<open>IDI_APPLICATION\<close>, which is no icon.
\<close>

theorem stock_icon_null_counterexample:
  "GetWindowIcon (os_idle\<lparr>os_LoadIconW := (\<lambda>hInstance name. 0)\<rparr>) 1 []
     = \<lparr>Icon = 0, Source = ''IDI_APPLICATION''\<rparr>"
  by (simp add: GetWindowIcon_def GetWindowIconTraced_def os_idle_def Let_def
      SendMessage_def GetClassLongPtrW_def LoadIconW_def)

text \<open>
  C6, amended. For every window handle and executable path, \<open>GetWindowIcon\<close> is the
  ordered cascade: large \<open>WM_GETICON\<close>, small \<open>WM_GETICON\<close>, second small slot, class
  large icon, class small icon, extraction from the executable when a path is given
  (and converts to UTF-16), and last the stock application icon. Its system calls are
  those of the strategies up to and including the first that yields a non-null handle,
  in that order and with none left out, and it returns that strategy's handle and
  label; when no strategy succeeds it returns what loading the stock icon gave. The
  handle returned is null exactly when every strategy, the stock icon included, gave
  the null handle. The result is always an \<open>IconInfo\<close>: there is no error result.
\<close>

theorem icon_cascade_first_success:
  "GetWindowIconTraced os hwnd exePath =
     firstSuccess_spec (iconStrategies_spec os hwnd exePath) (stockIcon_spec os) \<and>
   GetWindowIcon os hwnd exePath = fst (GetWindowIconTraced os hwnd exePath) \<and>
   GetWindowIconTraced os hwnd exePath =
     (\<lparr>Icon = snd (snd ((iconStrategies_spec os hwnd exePath @ [stockIcon_spec os]) !
                length (takeWhile (\<lambda>s. snd (snd s) = 0) (iconStrategies_spec os hwnd exePath)))),
       Source = fst ((iconStrategies_spec os hwnd exePath @ [stockIcon_spec os]) !
                length (takeWhile (\<lambda>s. snd (snd s) = 0) (iconStrategies_spec os hwnd exePath)))\<rparr>,
      map (\<lambda>s. fst (snd s))
        (take (Suc (length (takeWhile (\<lambda>s. snd (snd s) = 0) (iconStrategies_spec os hwnd exePath))))
           (iconStrategies_spec os hwnd exePath @ [stockIcon_spec os]))) \<and>
   (Icon (GetWindowIcon os hwnd exePath) = 0 \<longleftrightarrow>
      list_all (\<lambda>s. snd (snd s) = 0) (iconStrategies_spec os hwnd exePath @ [stockIcon_spec os]))"
  using firstSuccess_spec_closed [of "iconStrategies_spec os hwnd exePath" "stockIcon_spec os"]
    firstSuccess_spec_null [of "iconStrategies_spec os hwnd exePath" "stockIcon_spec os"]
  by (simp only: GetWindowIconTraced_cascade GetWindowIcon_def simp_thms)

subsection \<open>The registry\<close>

lemma impl_of_eq_lookup:
  "(k, w) \<in> set (DAList.impl_of m) \<longleftrightarrow> DAList.lookup m k = Some w"
  by (simp add: DAList.lookup.rep_eq)

lemma update_append_fresh:
  "k \<notin> fst ` set ys \<Longrightarrow> AList.update k v (ys @ (k, v0) # xs) = ys @ (k, v) # xs"
  by (induction ys) auto

lemma fold_update_own_entries:
  "distinct (map fst (ys @ xs)) \<Longrightarrow>
   fold (\<lambda>(k, v) al. AList.update k (g v) al) xs (ys @ xs) = ys @ map (\<lambda>(k, v). (k, g v)) xs"
proof (induction xs arbitrary: ys)
  case Nil
  then show ?case by simp
next
  case (Cons x xs)
  obtain k v where x: "x = (k, v)" by (cases x)
  have fresh: "k \<notin> fst ` set ys" using Cons.prems x by auto
  have d: "distinct (map fst ((ys @ [(k, g v)]) @ xs))" using Cons.prems x by auto
  have "fold (\<lambda>(k, v) al. AList.update k (g v) al) (x # xs) (ys @ x # xs)
      = fold (\<lambda>(k, v) al. AList.update k (g v) al) xs ((ys @ [(k, g v)]) @ xs)"
    using x update_append_fresh [OF fresh] by simp
  also have "\<dots> = (ys @ [(k, g v)]) @ map (\<lambda>(k, v). (k, g v)) xs"
    by (rule Cons.IH [OF d])
  finally show ?case using x by simp
qed

lemma impl_of_fold_update:
  "DAList.impl_of (fold (\<lambda>(k, v) m. DAList.update k (g v) m) xs m)
     = fold (\<lambda>(k, v) al. AList.update k (g v) al) xs (DAList.impl_of m)"
  by (induction xs arbitrary: m) (auto simp: DAList.update.rep_eq)

lemma impl_of_marked:
  "DAList.impl_of (Range (\<lambda>key window m. DAList.update key (window\<lparr>touched := False\<rparr>) m) m m)
     = map (\<lambda>(k, w). (k, w\<lparr>touched := False\<rparr>)) (DAList.impl_of m)"
  using fold_update_own_entries [of "[]" "DAList.impl_of m" "\<lambda>w. w\<lparr>touched := False\<rparr>"]
  by (simp add: Range_def impl_of_fold_update)

lemma lookup_marked:
  "DAList.lookup (Range (\<lambda>key window m. DAList.update key (window\<lparr>touched := False\<rparr>) m) m m) k
     = map_option (\<lambda>w. w\<lparr>touched := False\<rparr>) (DAList.lookup m k)"
  by (simp add: DAList.lookup.rep_eq impl_of_marked map_of_map)

lemma visit_eq:
  "visit os fg res m =
     (if Error res = None \<and> accepted os (Window res)
      then DAList.update (Window res) (storedRecord os fg (Window res) (DAList.lookup m (Window res))) m
      else m)"
  by (auto simp: visit_def accepted_def storedRecord_def Let_def split: prod.splits option.splits)

lemma storedRecord_again:
  "storedRecord os fg h (Some (storedRecord os fg h found)) = storedRecord os fg h found"
  by (cases found) (simp_all add: storedRecord_def Let_def)

lemma lookup_fold_visit:
  "DAList.lookup (fold (visit os fg) rs m) k =
     (if k \<in> {Window r | r. r \<in> set rs \<and> Error r = None \<and> accepted os (Window r)}
      then Some (storedRecord os fg k (DAList.lookup m k))
      else DAList.lookup m k)"
proof (induction rs arbitrary: m)
  case Nil
  then show ?case by simp
next
  case (Cons r rs)
  show ?case
  proof (cases "Error r = None \<and> accepted os (Window r)")
    case False
    then have "visit os fg r m = m" by (auto simp: visit_eq)
    with False Cons.IH [of m] show ?thesis by auto
  next
    case True
    then have v: "visit os fg r m =
        DAList.update (Window r) (storedRecord os fg (Window r) (DAList.lookup m (Window r))) m"
      by (simp add: visit_eq)
    show ?thesis
    proof (cases "k = Window r")
      case k: True
      with True v Cons.IH [of "visit os fg r m"] show ?thesis
        by (auto simp: storedRecord_again)
    next
      case k: False
      with True v Cons.IH [of "visit os fg r m"] show ?thesis
        by auto
    qed
  qed
qed

lemma set_ListDesktopWindows:
  "{Window r | r. r \<in> set (ListDesktopWindows os) \<and> Error r = None \<and> accepted os (Window r)}
     = {h \<in> set (fst (os_EnumDesktopWindows os)). accepted os h}"
proof -
  obtain hs ret err where e: "os_EnumDesktopWindows os = (hs, ret, err)"
    by (cases "os_EnumDesktopWindows os")
  show ?thesis
  proof (intro set_eqI iffI)
    fix h
    assume "h \<in> {Window r | r. r \<in> set (ListDesktopWindows os) \<and> Error r = None \<and> accepted os (Window r)}"
    then show "h \<in> {h \<in> set (fst (os_EnumDesktopWindows os)). accepted os h}"
      by (auto simp: ListDesktopWindows_def e split: if_splits)
  next
    fix h
    assume "h \<in> {h \<in> set (fst (os_EnumDesktopWindows os)). accepted os h}"
    then have "\<lparr>Window = h, Error = None\<rparr> \<in> set (ListDesktopWindows os)" "accepted os h"
      by (auto simp: ListDesktopWindows_def e)
    then show "h \<in> {Window r | r. r \<in> set (ListDesktopWindows os) \<and> Error r = None \<and> accepted os (Window r)}"
      by force
  qed
qed

lemma sweep_fold:
  "fold (\<lambda>(key, window) (sl, m). if touched window then (sl @ [window], m)
                                   else (sl, DAList.delete key m)) xs (sl, m)
     = (sl @ map snd (filter (\<lambda>(k, w). touched w) xs),
        fold (\<lambda>(key, window) m. if touched window then m else DAList.delete key m) xs m)"
  by (induction xs arbitrary: sl m) auto

lemma impl_of_fold_delete:
  "DAList.impl_of (fold (\<lambda>(key, window) m. if touched window then m else DAList.delete key m) xs m)
     = filter (\<lambda>(k, v). k \<notin> fst ` {(k', w) \<in> set xs. \<not> touched w}) (DAList.impl_of m)"
proof (induction xs arbitrary: m)
  case Nil
  then show ?case by simp
next
  case (Cons x xs)
  obtain k w where x: "x = (k, w)" by (cases x)
  show ?case
  proof (cases "touched w")
    case True
    have "{(k', w') \<in> set (x # xs). \<not> touched w'} = {(k', w') \<in> set xs. \<not> touched w'}"
      using True x by auto
    with True x Cons.IH [of m] show ?thesis by simp
  next
    case False
    let ?S = "fst ` {(k', w') \<in> set xs. \<not> touched w'}"
    have e: "fst ` {(k', w') \<in> set (x # xs). \<not> touched w'} = insert k ?S"
      using False x by force
    have "DAList.impl_of (fold (\<lambda>(key, window) m. if touched window then m else DAList.delete key m) (x # xs) m)
        = DAList.impl_of (fold (\<lambda>(key, window) m. if touched window then m else DAList.delete key m) xs (DAList.delete k m))"
      using False x by simp
    also have "\<dots> = filter (\<lambda>(k', v). k' \<notin> ?S) (DAList.impl_of (DAList.delete k m))"
      by (rule Cons.IH)
    also have "\<dots> = filter (\<lambda>(k', v). k' \<notin> insert k ?S) (DAList.impl_of m)"
      by (simp add: DAList.delete.rep_eq AList.delete_eq) (rule filter_cong, auto)
    finally show ?thesis unfolding e .
  qed
qed

lemma filter_untouched_keys:
  assumes "distinct (map fst xs)"
  shows "filter (\<lambda>(k, v). k \<notin> fst ` {(k', w) \<in> set xs. \<not> touched w}) xs
           = filter (\<lambda>(k, w). touched w) xs"
proof (rule filter_cong [OF refl])
  fix x assume x: "x \<in> set xs"
  obtain k v where kv: "x = (k, v)" by (cases x)
  have "k \<in> fst ` {(k', w) \<in> set xs. \<not> touched w} \<longleftrightarrow> \<not> touched v"
  proof
    assume "k \<in> fst ` {(k', w) \<in> set xs. \<not> touched w}"
    then obtain w where w: "(k, w) \<in> set xs" "\<not> touched w" by auto
    from assms w(1) x kv have "w = v" by (auto dest: eq_key_imp_eq_value)
    with w show "\<not> touched v" by simp
  next
    assume "\<not> touched v"
    with x kv show "k \<in> fst ` {(k', w) \<in> set xs. \<not> touched w}" by force
  qed
  with kv show "(case x of (k, v) \<Rightarrow> k \<notin> fst ` {(k', w) \<in> set xs. \<not> touched w}) = (case x of (k, w) \<Rightarrow> touched w)"
    by simp
qed

lemma sweep_result:
  "Range (\<lambda>key window (userWindowsSlice, m).
            if touched window then (userWindowsSlice @ [window], m)
            else (userWindowsSlice, DAList.delete key m)) stored ([], stored) = (sl, m')
   \<Longrightarrow> DAList.impl_of m' = filter (\<lambda>(k, w). touched w) (DAList.impl_of stored) \<and>
       sl = map snd (DAList.impl_of m')"
proof -
  assume a: "Range (\<lambda>key window (userWindowsSlice, m).
            if touched window then (userWindowsSlice @ [window], m)
            else (userWindowsSlice, DAList.delete key m)) stored ([], stored) = (sl, m')"
  have sl: "sl = map snd (filter (\<lambda>(k, w). touched w) (DAList.impl_of stored))"
    and m': "m' = fold (\<lambda>(key, window) m. if touched window then m else DAList.delete key m)
                   (DAList.impl_of stored) stored"
    using a by (simp_all add: Range_def sweep_fold)
  have "DAList.impl_of m' = filter (\<lambda>(k, w). touched w) (DAList.impl_of stored)"
    unfolding m' impl_of_fold_delete
    by (rule filter_untouched_keys) (rule DAList.impl_of_distinct)
  with sl show ?thesis by simp
qed

lemma lookup_kept_entries:
  assumes "distinct (map fst entries)"
  shows "map_of [(key, window) \<leftarrow> entries. keep window] key =
           Option.bind (map_of entries key) (\<lambda>window. if keep window then Some window else None)"
  using assms
proof (induction entries)
  case Nil
  show ?case by simp
next
  case (Cons entry entries)
  have fresh: "map_of [(key, window) \<leftarrow> entries. keep window] (fst entry) = None"
    using Cons.prems by (auto simp: map_of_eq_None_iff)
  from Cons fresh show ?case
    by (cases entry) (auto split: option.splits)
qed

text \<open>The pass, characterised.\<close>

lemma GetAltTabWindows_snapshot:
  "fst (GetAltTabWindows os m) = map snd (DAList.impl_of (snd (GetAltTabWindows os m)))"
  by (cases "GetAltTabWindows os m") (auto simp: GetAltTabWindows_def Let_def dest!: sweep_result)

lemma GetAltTabWindows_lookup:
  "DAList.lookup (snd (GetAltTabWindows os m)) k =
     (if k \<in> set (fst (os_EnumDesktopWindows os)) \<and> accepted os k
      then Some (storedRecord os (GetForegroundWindow os) k
                   (map_option (\<lambda>w. w\<lparr>touched := False\<rparr>) (DAList.lookup m k)))
      else None)"
proof -
  let ?marked = "Range (\<lambda>key window m. DAList.update key (window\<lparr>touched := False\<rparr>) m) m m"
  let ?stored = "fold (visit os (GetForegroundWindow os)) (ListDesktopWindows os) ?marked"
  obtain sl m' where r: "GetAltTabWindows os m = (sl, m')" by (cases "GetAltTabWindows os m")
  then have "DAList.impl_of m' = filter (\<lambda>(k, w). touched w) (DAList.impl_of ?stored)"
    by (auto simp: GetAltTabWindows_def Let_def dest!: sweep_result)
  then have "DAList.lookup m' k =
      (case DAList.lookup ?stored k of None \<Rightarrow> None | Some v \<Rightarrow> if touched v then Some v else None)"
    using lookup_kept_entries [OF DAList.impl_of_distinct, of touched ?stored k]
    by (simp add: DAList.lookup.rep_eq split: option.splits)
  moreover have "DAList.lookup ?stored k =
     (if k \<in> {h \<in> set (fst (os_EnumDesktopWindows os)). accepted os h}
      then Some (storedRecord os (GetForegroundWindow os) k (DAList.lookup ?marked k))
      else DAList.lookup ?marked k)"
    by (simp only: lookup_fold_visit set_ListDesktopWindows)
  moreover have "touched (storedRecord os fg k found)" for fg found
    by (cases found) (simp_all add: storedRecord_def Let_def)
  ultimately show ?thesis using r
    by (auto simp: lookup_marked split: option.splits)
qed

lemma storedRecord_fields:
  "touched (storedRecord os fg k found)"
  "IsForeground (storedRecord os fg k found) = (fg = k)"
  "Hwnd (storedRecord os fg k found) = (case found of None \<Rightarrow> k | Some w \<Rightarrow> Hwnd w)"
  "LastActive (storedRecord os fg k found) = (case found of None \<Rightarrow> 0 | Some w \<Rightarrow> LastActive w)"
  by (cases found; simp add: storedRecord_def Let_def)+

lemma GetAltTabWindows_keys:
  "fst ` set (DAList.impl_of (snd (GetAltTabWindows os m)))
     = {h \<in> set (fst (os_EnumDesktopWindows os)). accepted os h}"
proof -
  have "fst ` set (DAList.impl_of (snd (GetAltTabWindows os m)))
          = dom (DAList.lookup (snd (GetAltTabWindows os m)))"
    by (simp add: DAList.lookup.rep_eq dom_map_of_conv_image_fst)
  also have "\<dots> = {h \<in> set (fst (os_EnumDesktopWindows os)). accepted os h}"
    by (auto simp: dom_def GetAltTabWindows_lookup)
  finally show ?thesis .
qed

lemma registry_ok_iff:
  "registry_ok m \<longleftrightarrow> (\<forall>k w. DAList.lookup m k = Some w \<longrightarrow> Hwnd w = k)"
  by (auto simp: registry_ok_def list_all_iff impl_of_eq_lookup [symmetric])

lemma registry_ok_GetAltTabWindows:
  assumes "registry_ok m"
  shows "registry_ok (snd (GetAltTabWindows os m))"
  unfolding registry_ok_iff
proof (intro allI impI)
  fix k w
  assume "DAList.lookup (snd (GetAltTabWindows os m)) k = Some w"
  then have w: "w = storedRecord os (GetForegroundWindow os) k
                   (map_option (\<lambda>w. w\<lparr>touched := False\<rparr>) (DAList.lookup m k))"
    by (auto simp: GetAltTabWindows_lookup split: if_splits)
  show "Hwnd w = k"
    using assms unfolding w registry_ok_iff
    by (cases "DAList.lookup m k") (auto simp: storedRecord_fields)
qed

lemma registry_ok_empty: "registry_ok DAList.empty"
  by (simp add: registry_ok_def DAList.empty.rep_eq)

lemma map_Hwnd_registry_ok:
  "registry_ok m \<Longrightarrow> map Hwnd (map snd (DAList.impl_of m)) = map fst (DAList.impl_of m)"
  by (auto simp: registry_ok_def list_all_iff)

text \<open>
  A pass run from start to end on a registry that keeps each record under its own
  handle: the handles it leaves, and those of its snapshot, are the accepted ones among
  the handles the enumeration reported.
\<close>

lemma GetAltTabWindows_registry:
  "registry_ok userWindows \<longrightarrow>
     fst ` set (DAList.impl_of (snd (GetAltTabWindows os userWindows)))
       = {h \<in> set (fst (os_EnumDesktopWindows os)). accepted os h} \<and>
     set (map Hwnd (fst (GetAltTabWindows os userWindows)))
       = {h \<in> set (fst (os_EnumDesktopWindows os)). accepted os h} \<and>
     registry_ok (snd (GetAltTabWindows os userWindows))"
proof
  assume ok: "registry_ok userWindows"
  have ok': "registry_ok (snd (GetAltTabWindows os userWindows))"
    by (rule registry_ok_GetAltTabWindows [OF ok])
  have "set (map Hwnd (fst (GetAltTabWindows os userWindows)))
          = fst ` set (DAList.impl_of (snd (GetAltTabWindows os userWindows)))"
    by (simp only: GetAltTabWindows_snapshot map_Hwnd_registry_ok [OF ok'] set_map)
  with ok' show "fst ` set (DAList.impl_of (snd (GetAltTabWindows os userWindows)))
       = {h \<in> set (fst (os_EnumDesktopWindows os)). accepted os h} \<and>
     set (map Hwnd (fst (GetAltTabWindows os userWindows)))
       = {h \<in> set (fst (os_EnumDesktopWindows os)). accepted os h} \<and>
     registry_ok (snd (GetAltTabWindows os userWindows))"
    by (simp only: GetAltTabWindows_keys simp_thms)
qed

subsection \<open>Passes step by step\<close>

text \<open>
  The steps of a pass, run with no other step in between, give \<open>GetAltTabWindows\<close>;
  those of the handler give \<open>activateWindow\<close>; and every schedule interleaves.
\<close>

lemma runActions_append:
  "runActions (xs @ ys) m =
     (fst (runActions xs m) @ fst (runActions ys (snd (runActions xs m))),
      snd (runActions ys (snd (runActions xs m))))"
  by (induction xs arbitrary: m) (auto split: prod.splits)

lemma runActions_visits:
  "runActions (map (Visit os fg) rs) m = ([], fold (visit os fg) rs m)"
  by (induction rs arbitrary: m) auto

lemma runActions_passActions:
  "runActions (passActions os) m = ([fst (GetAltTabWindows os m)], snd (GetAltTabWindows os m))"
  by (simp add: passActions_def runActions_append runActions_visits GetAltTabWindows_def Let_def
      split: prod.splits)

lemma runActions_passes:
  "runActions (concat (map passActions ticks)) m =
     (map (\<lambda>e. case e of userWindowsChanged s \<Rightarrow> s) (fst (refreshLoop ticks m)),
      snd (refreshLoop ticks m))"
  by (induction ticks arbitrary: m)
     (auto simp: runActions_append runActions_passActions split: prod.splits)

lemma runActions_Store:
  "runActions (Store hwnd window # rest) m = runActions rest (DAList.update hwnd window m)"
  by (simp split: prod.splits)

lemma activateWindow_uninterrupted:
  "activateWindow os os' now hwnd m =
     (map userWindowsChanged (fst (runActions (activateWindowActions os os' now hwnd m) m)),
      snd (runActions (activateWindowActions os os' now hwnd m) m))"
  by (auto simp: activateWindow_def activateWindowActions_def Let_def runActions_passActions
      split: option.splits prod.splits)

lemma append_in_shuffles: "xs @ ys \<in> shuffles xs ys"
  by (induction xs) (auto intro: Cons_in_shuffles_leftI)

lemma interleave_shuffles: "interleave bs xs ys \<in> shuffles xs ys"
  by (induction bs xs ys rule: interleave.induct)
     (auto intro: Cons_in_shuffles_leftI Cons_in_shuffles_rightI append_in_shuffles)

subsection \<open>The registry after a pass\<close>

lemma GetWindowIcon_desktop:
  "Icon (GetWindowIcon (desktop hs fg) h []) = 0x10003"
  by (simp add: GetWindowIcon_def GetWindowIconTraced_def desktop_def os_idle_def Let_def
      SendMessage_def GetClassLongPtrW_def LoadIconW_def MAKEINTRESOURCEW_def IDI_APPLICATION_def)

lemma exePathOf_desktop: "exePathOf (desktop hs fg) h = []"
  by (simp add: exePathOf_def desktop_def os_idle_def)

lemma IsAltTabWindow_desktop: "IsAltTabWindow (desktop hs fg) h \<longleftrightarrow> h \<in> set hs"
  by (simp add: IsAltTabWindow_iff desktop_def os_idle_def DwmGetWindowAttribute_def
      GetAncestor_def GetWindowLongPtrW_def DWM_CLOAKED_SHELL_def)

lemma accepted_desktop: "accepted (desktop hs fg) h \<longleftrightarrow> h \<in> set hs"
  unfolding accepted_def IsAltTabWindow_desktop exePathOf_desktop GetWindowIcon_desktop
  by (simp add: desktop_def os_idle_def GetWindowTextW_def)

lemma enumerated_desktop: "fst (os_EnumDesktopWindows (desktop hs fg)) = hs"
  by (simp add: desktop_def)

text \<open>
  C2 as stated fails, in two ways. First, window 1 is enumerated and classified
  eligible, but \<open>GetWindowTextW\<close> returns 0 for it (its title is empty), which the
  wrapper reports as an error; the pass skips the window and the registry stays empty.
  Second, two passes overlap on a desktop showing the eligible window 1, which has a
  title: the first resets and stores window 1, the second resets, the first sweeps. The
  first pass to complete returns the empty snapshot and deletes the record of the
  window it has just classified and stored.
\<close>

theorem registry_not_exactly_eligible_counterexample:
  "1 \<in> set (fst (os_EnumDesktopWindows ((desktop [1] 1)\<lparr>os_GetWindowTextW := (\<lambda>hwnd. (0, 0, []))\<rparr>))) \<and>
   IsAltTabWindow ((desktop [1] 1)\<lparr>os_GetWindowTextW := (\<lambda>hwnd. (0, 0, []))\<rparr>) 1 \<and>
   fst ` set (DAList.impl_of (snd (runActions
       (passActions ((desktop [1] 1)\<lparr>os_GetWindowTextW := (\<lambda>hwnd. (0, 0, []))\<rparr>))
       DAList.empty))) = {} \<and>
   IsAltTabWindow (desktop [1] 1) 1 \<and>
   map (map Hwnd)
     (fst (runActions
            (interleave [True, True, False, True]
               (passActions (desktop [1] 1)) (passActions (desktop [1] 1)))
            DAList.empty))
     = [[], [1]]"
proof -
  let ?os = "(desktop [1] 1)\<lparr>os_GetWindowTextW := (\<lambda>hwnd. (0, 0, []))\<rparr>"
  have a: "IsAltTabWindow ?os 1"
    by (simp add: IsAltTabWindow_iff desktop_def os_idle_def DwmGetWindowAttribute_def
      GetAncestor_def GetWindowLongPtrW_def DWM_CLOAKED_SHELL_def)
  have b: "\<not> accepted ?os h" for h
    by (simp add: accepted_def GetWindowTextW_def)
  have c: "1 \<in> set (fst (os_EnumDesktopWindows ?os))" by (simp add: desktop_def)
  have d: "fst ` set (DAList.impl_of (snd (runActions (passActions ?os) DAList.empty))) = {}"
    using b by (simp add: runActions_passActions GetAltTabWindows_keys)
  have e: "IsAltTabWindow (desktop [1] 1) 1" by (simp add: IsAltTabWindow_desktop)
  have i: "map (map Hwnd)
     (fst (runActions
            (interleave [True, True, False, True]
               (passActions (desktop [1] 1)) (passActions (desktop [1] 1)))
            DAList.empty))
     = [[], [1]]"
    by code_simp
  from c a d e i show ?thesis by (intro conjI)
qed

text \<open>
  C2, amended. After every completed refresh pass that no other pass overlaps (no step
  of another goroutine on the registry falls between its steps), on a registry that
  keeps each record under its own handle, the handles in the registry, and the handles
  of the records in the one snapshot it returns, are exactly the handles the
  enumeration of that pass reported that were classified eligible and whose caption
  query returned no error and whose icon converted. So every record not stored again
  during the pass is deleted and no handle of an earlier pass survives unobserved; an
  eligible window whose caption query or icon conversion fails is left out. The
  registry again keeps each record under its own handle.
\<close>

theorem registry_after_uninterrupted_pass:
  "registry_ok userWindows \<longrightarrow>
     (case runActions (passActions os) userWindows of
        (snapshots, userWindows') \<Rightarrow>
          fst ` set (DAList.impl_of userWindows')
            = {h \<in> set (fst (os_EnumDesktopWindows os)). accepted os h} \<and>
          map (\<lambda>snapshot. set (map Hwnd snapshot)) snapshots
            = [{h \<in> set (fst (os_EnumDesktopWindows os)). accepted os h}] \<and>
          registry_ok userWindows')"
  using GetAltTabWindows_registry [of userWindows os]
  by (simp add: runActions_passActions)

theorem registry_after_uninterrupted_pass_witness:
  "registry_ok DAList.empty \<and>
   fst ` set (DAList.impl_of (snd (runActions (passActions (desktop [1, 2] 1)) DAList.empty))) = {1, 2} \<and>
   map (\<lambda>snapshot. set (map Hwnd snapshot))
     (fst (runActions (passActions (desktop [1, 2] 1)) DAList.empty)) = [{1, 2}] \<and>
   registry_ok (snd (runActions (passActions (desktop [1, 2] 1)) DAList.empty))"
proof -
  have "{h \<in> set (fst (os_EnumDesktopWindows (desktop [1, 2] 1))). accepted (desktop [1, 2] 1) h} = {1, 2}"
    by (auto simp: accepted_desktop enumerated_desktop)
  with registry_after_uninterrupted_pass [of DAList.empty "desktop [1, 2] 1"] registry_ok_empty
  show ?thesis by (simp split: prod.splits)
qed

subsection \<open>The foreground flag\<close>

lemma foreground_count:
  "distinct (map fst xs) \<Longrightarrow> list_all (\<lambda>(key, window). IsForeground window = (key = fg)) xs \<Longrightarrow>
   length (filter IsForeground (map snd xs)) \<le> 1"
proof (induction xs)
  case Nil
  then show ?case by simp
next
  case (Cons x xs)
  obtain k w where x: "x = (k, w)" by (cases x)
  show ?case
  proof (cases "IsForeground w")
    case False
    with Cons x show ?thesis by simp
  next
    case True
    with Cons.prems x have k: "k = fg" by simp
    have "filter IsForeground (map snd xs) = []"
    proof (rule ccontr)
      assume "filter IsForeground (map snd xs) \<noteq> []"
      then obtain w' where "w' \<in> set (map snd xs)" "IsForeground w'"
        by (auto simp: filter_empty_conv)
      then obtain k' where kw: "(k', w') \<in> set xs" by auto
      with Cons.prems(2) \<open>IsForeground w'\<close> have "k' = fg" by (auto simp: list_all_iff)
      with kw k x Cons.prems(1) show False by force
    qed
    with True x show ?thesis by simp
  qed
qed

text \<open>
  In the snapshot of a pass run from start to end at most one record has
  \<open>IsForeground\<close> set. The snapshot is the list of the registry's records after the
  pass, and the flag of each is the equality of the handle it is stored under with the
  foreground handle read once at the start of the pass.
\<close>

lemma GetAltTabWindows_foreground:
  "length (filter IsForeground (fst (GetAltTabWindows os userWindows))) \<le> 1 \<and>
   fst (GetAltTabWindows os userWindows)
     = map snd (DAList.impl_of (snd (GetAltTabWindows os userWindows))) \<and>
   list_all (\<lambda>(key, window). IsForeground window = (key = GetForegroundWindow os))
     (DAList.impl_of (snd (GetAltTabWindows os userWindows)))"
proof -
  have fg: "list_all (\<lambda>(key, window). IsForeground window = (key = GetForegroundWindow os))
     (DAList.impl_of (snd (GetAltTabWindows os userWindows)))"
    by (auto simp: list_all_iff impl_of_eq_lookup GetAltTabWindows_lookup storedRecord_fields
        split: if_splits)
  have "length (filter IsForeground (map snd (DAList.impl_of (snd (GetAltTabWindows os userWindows))))) \<le> 1"
    by (rule foreground_count [OF DAList.impl_of_distinct fg])
  with fg show ?thesis by (simp only: GetAltTabWindows_snapshot [symmetric] simp_thms)
qed

lemma one_foreground_pass:
  "length (filter IsForeground (fst (GetAltTabWindows os m))) \<le> 1"
  using GetAltTabWindows_foreground [of os m] by (rule conjunct1)

lemma one_foreground_passes:
  "list_all (\<lambda>s. length (filter IsForeground s) \<le> 1)
     (fst (runActions (concat (map passActions ticks)) m))"
proof (induction ticks arbitrary: m)
  case Nil
  show ?case by simp
next
  case (Cons os ticks)
  have "length (filter IsForeground (fst (GetAltTabWindows os m))) \<le> 1"
    by (rule one_foreground_pass)
  with Cons show ?case
    by (simp only: list.map concat.simps runActions_append runActions_passActions
        fst_conv snd_conv list_all_append list.pred_inject simp_thms)
qed

text \<open>
  C7 as stated fails when two passes overlap. The desktop shows windows 1 and 2 and the
  registry is empty. The timer's pass reads window 1 as the foreground window; the
  foreground changes to window 2; the pass of the \<open>activateWindow\<close> handler reads window
  2 as the foreground window. The steps then run in the order: the first pass resets,
  the second resets, the second stores window 1, the first stores window 1 (foreground),
  the first stores window 2, the second stores window 2 (foreground), the first sweeps,
  the second sweeps. Both snapshots carry two records with \<open>IsForeground\<close> set.
\<close>

theorem overlapping_passes_two_foreground_counterexample:
  "map (map (\<lambda>window. (Hwnd window, IsForeground window)))
     (fst (runActions
            (interleave [True, False, False, True, True, False, True, False]
               (passActions (desktop [1, 2] 1)) (passActions (desktop [1, 2] 2)))
            DAList.empty))
     = [[(1, True), (2, True)], [(1, True), (2, True)]]"
  by code_simp

text \<open>
  C7, amended. In every snapshot produced by a refresh pass that no other pass overlaps
  (no step of another goroutine on the registry falls between its steps), at most one
  record has \<open>IsForeground\<close> set: the snapshot is the list of the registry's records
  after the pass, and the flag of each is the equality of the handle it is stored under
  with the single foreground handle read at the start of the pass. The same bound holds
  for every snapshot of any number of passes run one after another.
\<close>

theorem one_foreground_without_overlap:
  "list_all (\<lambda>s. length (filter IsForeground s) \<le> 1)
     (fst (runActions (concat (map passActions ticks)) userWindows)) \<and>
   (case runActions (passActions os) userWindows of
      (snapshots, userWindows') \<Rightarrow>
        snapshots = [map snd (DAList.impl_of userWindows')] \<and>
        list_all (\<lambda>(key, window). IsForeground window = (key = GetForegroundWindow os))
          (DAList.impl_of userWindows'))"
proof -
  have "list_all (\<lambda>s. length (filter IsForeground s) \<le> 1)
     (fst (runActions (concat (map passActions ticks)) userWindows))"
    by (rule one_foreground_passes)
  moreover have "fst (GetAltTabWindows os userWindows)
     = map snd (DAList.impl_of (snd (GetAltTabWindows os userWindows)))"
    using GetAltTabWindows_foreground [of os userWindows] by (elim conjE)
  moreover have "list_all (\<lambda>(key, window). IsForeground window = (key = GetForegroundWindow os))
     (DAList.impl_of (snd (GetAltTabWindows os userWindows)))"
    using GetAltTabWindows_foreground [of os userWindows] by (elim conjE)
  ultimately show ?thesis
    by (simp only: runActions_passActions prod.case simp_thms)
qed

subsection \<open>Enumeration failure\<close>

text \<open>Nothing but the enumeration itself reads \<open>os_EnumDesktopWindows\<close>.\<close>

lemma wrappers_enum_irrelevant:
  "GetAncestor (os\<lparr>os_EnumDesktopWindows := e\<rparr>) = GetAncestor os"
  "DwmGetWindowAttribute (os\<lparr>os_EnumDesktopWindows := e\<rparr>) = DwmGetWindowAttribute os"
  "GetWindowLongPtrW (os\<lparr>os_EnumDesktopWindows := e\<rparr>) = GetWindowLongPtrW os"
  "GetWindowTextW (os\<lparr>os_EnumDesktopWindows := e\<rparr>) = GetWindowTextW os"
  "QueryFullProcessImageNameW (os\<lparr>os_EnumDesktopWindows := e\<rparr>) = QueryFullProcessImageNameW os"
  "SendMessage (os\<lparr>os_EnumDesktopWindows := e\<rparr>) = SendMessage os"
  "GetClassLongPtrW (os\<lparr>os_EnumDesktopWindows := e\<rparr>) = GetClassLongPtrW os"
  "ExtractIconExW (os\<lparr>os_EnumDesktopWindows := e\<rparr>) = ExtractIconExW os"
  "LoadIconW (os\<lparr>os_EnumDesktopWindows := e\<rparr>) = LoadIconW os"
  "GetForegroundWindow (os\<lparr>os_EnumDesktopWindows := e\<rparr>) = GetForegroundWindow os"
  by (simp_all add: fun_eq_iff GetAncestor_def DwmGetWindowAttribute_def GetWindowLongPtrW_def
      GetWindowTextW_def QueryFullProcessImageNameW_def SendMessage_def GetClassLongPtrW_def
      ExtractIconExW_def LoadIconW_def GetForegroundWindow_def)

lemma selectors_enum_irrelevant:
  "os_IsWindowVisible (os\<lparr>os_EnumDesktopWindows := e\<rparr>) = os_IsWindowVisible os"
  "os_GetWindowThreadProcessId (os\<lparr>os_EnumDesktopWindows := e\<rparr>) = os_GetWindowThreadProcessId os"
  "os_OpenProcess (os\<lparr>os_EnumDesktopWindows := e\<rparr>) = os_OpenProcess os"
  "os_HICONToBase64Png (os\<lparr>os_EnumDesktopWindows := e\<rparr>) = os_HICONToBase64Png os"
  by simp_all

lemmas enum_irrelevant = wrappers_enum_irrelevant selectors_enum_irrelevant

lemma IsAltTabWindow_enum_irrelevant:
  "IsAltTabWindow (os\<lparr>os_EnumDesktopWindows := e\<rparr>) hwnd = IsAltTabWindow os hwnd"
  unfolding IsAltTabWindow_def enum_irrelevant ..

lemma exePathOf_enum_irrelevant:
  "exePathOf (os\<lparr>os_EnumDesktopWindows := e\<rparr>) hWnd = exePathOf os hWnd"
  unfolding exePathOf_def enum_irrelevant ..

lemma GetWindowIcon_enum_irrelevant:
  "GetWindowIcon (os\<lparr>os_EnumDesktopWindows := e\<rparr>) hwnd exePath = GetWindowIcon os hwnd exePath"
  unfolding GetWindowIcon_def GetWindowIconTraced_def enum_irrelevant ..

lemma accepted_enum_irrelevant:
  "accepted (os\<lparr>os_EnumDesktopWindows := e\<rparr>) h = accepted os h"
  unfolding accepted_def enum_irrelevant IsAltTabWindow_enum_irrelevant
    exePathOf_enum_irrelevant GetWindowIcon_enum_irrelevant ..

lemma visit_enum_irrelevant:
  "visit (os\<lparr>os_EnumDesktopWindows := e\<rparr>) fg res m = visit os fg res m"
  unfolding visit_def enum_irrelevant IsAltTabWindow_enum_irrelevant
    exePathOf_enum_irrelevant GetWindowIcon_enum_irrelevant ..

lemma ListDesktopWindows_failed:
  "fst (snd (os_EnumDesktopWindows os)) = 0 \<Longrightarrow>
   ListDesktopWindows os =
     ListDesktopWindows (os\<lparr>os_EnumDesktopWindows := (fst (os_EnumDesktopWindows os), 1, 0)\<rparr>)
     @ [\<lparr>Window = 0, Error = Some (Errno (snd (snd (os_EnumDesktopWindows os))))\<rparr>]"
  by (cases "os_EnumDesktopWindows os") (simp add: ListDesktopWindows_def)

lemma GetAltTabWindows_failed_enumeration:
  assumes "fst (snd (os_EnumDesktopWindows os)) = 0"
  shows "GetAltTabWindows os m =
         GetAltTabWindows (os\<lparr>os_EnumDesktopWindows := (fst (os_EnumDesktopWindows os), 1, 0)\<rparr>) m"
proof -
  let ?os' = "os\<lparr>os_EnumDesktopWindows := (fst (os_EnumDesktopWindows os), 1, 0)\<rparr>"
  have v: "visit ?os' fg = visit os fg" for fg
    by (intro ext) (rule visit_enum_irrelevant)
  have skip: "visit os fg \<lparr>Window = 0, Error = Some e\<rparr> m' = m'" for fg e m'
    by (simp add: visit_def)
  show ?thesis
    unfolding GetAltTabWindows_def Let_def ListDesktopWindows_failed [OF assms] v
    by (simp add: skip enum_irrelevant)
qed

text \<open>
  The steps of a pass whose enumeration failed are those of a pass that enumerated the
  same windows without failure, with one more step before the sweep, for the error
  result; that step leaves every registry as it is.
\<close>

lemma passActions_failed_enumeration:
  "fst (snd (os_EnumDesktopWindows os)) = 0 \<Longrightarrow>
   passActions os =
     Mark # map (Visit os (GetForegroundWindow os))
              (ListDesktopWindows (os\<lparr>os_EnumDesktopWindows := (fst (os_EnumDesktopWindows os), 1, 0)\<rparr>))
       @ [Visit os (GetForegroundWindow os)
            \<lparr>Window = 0, Error = Some (Errno (snd (snd (os_EnumDesktopWindows os))))\<rparr>,
          Sweep]"
  by (simp add: passActions_def ListDesktopWindows_failed)

lemma perform_Visit_error:
  "perform (Visit os foreground \<lparr>Window = hwnd, Error = Some e\<rparr>) m = ([], m)"
  by (simp add: visit_def)

text \<open>
  In the revision with the ordered list a failed enumeration ends the process through
  \<open>log.Fatalf\<close>, whatever the registry holds.
\<close>

lemma ordered_enumeration_failure_is_fatal:
  "fst (snd (os_EnumDesktopWindows os)) = 0 \<Longrightarrow>
   GetAltTabWindows_ordered clears getWindowIcon os st = Inl (Fatal ''Failed to enumerate windows'')"
  by (auto simp: GetAltTabWindows_ordered_def Let_def split: prod.splits)

text \<open>
  C4 as stated fails at both places where the enumeration is called. In the current
  \<open>main.go\<close>: a first pass on a desktop showing window 1 registers it; in the next pass
  the enumeration fails with error 5 before reporting any window; the pass is not
  abandoned, and it deletes the record of window 1, so the previous registry state is
  not retained. In the revision with the ordered list: the same failure ends the
  process through \<open>log.Fatalf\<close>, and the tick after it never runs.
\<close>

theorem enumeration_failure_counterexample:
  "fst (snd (os_EnumDesktopWindows ((desktop [1] 1)\<lparr>os_EnumDesktopWindows := ([], 0, 5)\<rparr>))) = 0 \<and>
   DAList.lookup (snd (runActions (passActions (desktop [1] 1)) DAList.empty)) 1 \<noteq> None \<and>
   DAList.lookup
     (snd (runActions (passActions ((desktop [1] 1)\<lparr>os_EnumDesktopWindows := ([], 0, 5)\<rparr>))
        (snd (runActions (passActions (desktop [1] 1)) DAList.empty)))) 1 = None \<and>
   refreshLoop_ordered True (\<lambda>hWnd. 0x10003)
       [(desktop [1] 1)\<lparr>os_EnumDesktopWindows := ([], 0, 5)\<rparr>, desktop [1] 1] ([], DAList.empty)
     = ([], Some (Fatal ''Failed to enumerate windows''))"
proof -
  have a: "fst (snd (os_EnumDesktopWindows ((desktop [1] 1)\<lparr>os_EnumDesktopWindows := ([], 0, 5)\<rparr>))) = 0"
    by simp
  have b: "DAList.lookup (snd (runActions (passActions (desktop [1] 1)) DAList.empty)) 1 \<noteq> None"
    by (simp add: runActions_passActions GetAltTabWindows_lookup accepted_desktop enumerated_desktop)
  have c: "DAList.lookup
     (snd (runActions (passActions ((desktop [1] 1)\<lparr>os_EnumDesktopWindows := ([], 0, 5)\<rparr>))
        (snd (runActions (passActions (desktop [1] 1)) DAList.empty)))) 1 = None"
    by (simp add: runActions_passActions GetAltTabWindows_lookup)
  have d: "refreshLoop_ordered True (\<lambda>hWnd. 0x10003)
       [(desktop [1] 1)\<lparr>os_EnumDesktopWindows := ([], 0, 5)\<rparr>, desktop [1] 1] ([], DAList.empty)
     = ([], Some (Fatal ''Failed to enumerate windows''))"
    by (simp add: ordered_enumeration_failure_is_fatal)
  from a b c d show ?thesis by (intro conjI)
qed

text \<open>
  C4, amended. When the enumeration of the desktop fails, what follows depends on the
  revision. In the current \<open>main.go\<close> the failure is one more result of the enumeration,
  which the pass logs and skips; the step taken for it changes no registry. The pass is
  not abandoned: run with no step of another goroutine in between, it completes exactly
  as a successful enumeration of the windows reported before the failure would, so the
  registry then holds the accepted ones among those windows and every other record is
  deleted; the previous state is not retained. The pass returns, the loop publishes its
  snapshot and goes on to the next tick with the registry the pass left. In the
  revision with the ordered list the failure ends the process through \<open>log.Fatalf\<close>:
  the loop publishes nothing for this tick and runs no later one.
\<close>

theorem enumeration_failure_outcomes:
  "fst (snd (os_EnumDesktopWindows os)) = 0 \<longrightarrow>
     passActions os =
       Mark # map (Visit os (GetForegroundWindow os))
                (ListDesktopWindows (os\<lparr>os_EnumDesktopWindows := (fst (os_EnumDesktopWindows os), 1, 0)\<rparr>))
         @ [Visit os (GetForegroundWindow os)
              \<lparr>Window = 0, Error = Some (Errno (snd (snd (os_EnumDesktopWindows os))))\<rparr>,
            Sweep] \<and>
     perform (Visit os (GetForegroundWindow os)
                \<lparr>Window = 0, Error = Some (Errno (snd (snd (os_EnumDesktopWindows os))))\<rparr>) registry
       = ([], registry) \<and>
     runActions (passActions os) userWindows =
       runActions (passActions (os\<lparr>os_EnumDesktopWindows := (fst (os_EnumDesktopWindows os), 1, 0)\<rparr>))
         userWindows \<and>
     fst ` set (DAList.impl_of (snd (runActions (passActions os) userWindows)))
       = {h \<in> set (fst (os_EnumDesktopWindows os)). accepted os h} \<and>
     refreshLoop (os # ticks) userWindows =
       (userWindowsChanged (fst (GetAltTabWindows os userWindows))
          # fst (refreshLoop ticks (snd (GetAltTabWindows os userWindows))),
        snd (refreshLoop ticks (snd (GetAltTabWindows os userWindows)))) \<and>
     refreshLoop_ordered clears getWindowIcon (os # ticks) ordered
       = ([], Some (Fatal ''Failed to enumerate windows''))"
proof (intro impI conjI)
  assume "fst (snd (os_EnumDesktopWindows os)) = 0"
  then show "passActions os =
       Mark # map (Visit os (GetForegroundWindow os))
                (ListDesktopWindows (os\<lparr>os_EnumDesktopWindows := (fst (os_EnumDesktopWindows os), 1, 0)\<rparr>))
         @ [Visit os (GetForegroundWindow os)
              \<lparr>Window = 0, Error = Some (Errno (snd (snd (os_EnumDesktopWindows os))))\<rparr>,
            Sweep]"
    by (rule passActions_failed_enumeration)
next
  show "perform (Visit os (GetForegroundWindow os)
                \<lparr>Window = 0, Error = Some (Errno (snd (snd (os_EnumDesktopWindows os))))\<rparr>) registry
       = ([], registry)"
    by (rule perform_Visit_error)
next
  assume "fst (snd (os_EnumDesktopWindows os)) = 0"
  then have "GetAltTabWindows os userWindows =
       GetAltTabWindows (os\<lparr>os_EnumDesktopWindows := (fst (os_EnumDesktopWindows os), 1, 0)\<rparr>)
         userWindows"
    by (rule GetAltTabWindows_failed_enumeration)
  then show "runActions (passActions os) userWindows =
       runActions (passActions (os\<lparr>os_EnumDesktopWindows := (fst (os_EnumDesktopWindows os), 1, 0)\<rparr>))
         userWindows"
    by (simp only: runActions_passActions)
next
  show "fst ` set (DAList.impl_of (snd (runActions (passActions os) userWindows)))
       = {h \<in> set (fst (os_EnumDesktopWindows os)). accepted os h}"
    by (simp only: runActions_passActions snd_conv GetAltTabWindows_keys)
next
  show "refreshLoop (os # ticks) userWindows =
       (userWindowsChanged (fst (GetAltTabWindows os userWindows))
          # fst (refreshLoop ticks (snd (GetAltTabWindows os userWindows))),
        snd (refreshLoop ticks (snd (GetAltTabWindows os userWindows))))"
    by (simp split: prod.splits)
next
  assume "fst (snd (os_EnumDesktopWindows os)) = 0"
  then show "refreshLoop_ordered clears getWindowIcon (os # ticks) ordered
       = ([], Some (Fatal ''Failed to enumerate windows''))"
    by (simp add: ordered_enumeration_failure_is_fatal)
qed

theorem enumeration_failure_outcomes_witness:
  "fst (snd (os_EnumDesktopWindows ((desktop [1, 2] 1)\<lparr>os_EnumDesktopWindows := ([2], 0, 5)\<rparr>))) = 0 \<and>
   fst ` set (DAList.impl_of (snd (runActions
       (passActions ((desktop [1, 2] 1)\<lparr>os_EnumDesktopWindows := ([2], 0, 5)\<rparr>))
       (snd (GetAltTabWindows (desktop [1, 2] 1) DAList.empty))))) = {2} \<and>
   length (fst (refreshLoop
       [(desktop [1, 2] 1)\<lparr>os_EnumDesktopWindows := ([2], 0, 5)\<rparr>, desktop [1, 2] 1]
       (snd (GetAltTabWindows (desktop [1, 2] 1) DAList.empty)))) = 2 \<and>
   refreshLoop_ordered True (\<lambda>hWnd. 0x10003)
       [(desktop [1, 2] 1)\<lparr>os_EnumDesktopWindows := ([2], 0, 5)\<rparr>, desktop [1, 2] 1]
       ([], DAList.empty)
     = ([], Some (Fatal ''Failed to enumerate windows''))"
proof -
  let ?f = "(desktop [1, 2] 1)\<lparr>os_EnumDesktopWindows := ([2], 0, 5)\<rparr>"
  let ?m = "snd (GetAltTabWindows (desktop [1, 2] 1) DAList.empty)"
  have f: "fst (snd (os_EnumDesktopWindows ?f)) = 0" by simp
  have s: "{h \<in> set (fst (os_EnumDesktopWindows ?f)). accepted ?f h} = {2}"
    by (auto simp: accepted_enum_irrelevant accepted_desktop)
  note w = enumeration_failure_outcomes [of ?f ?m ?m "[desktop [1, 2] 1]" True "\<lambda>hWnd. 0x10003"
      "([], DAList.empty)", THEN mp, OF f]
  note w3 = w [THEN conjunct2, THEN conjunct2, THEN conjunct2]
  from w3 have k: "fst ` set (DAList.impl_of (snd (runActions (passActions ?f) ?m))) = {2}"
    unfolding s by (rule conjunct1)
  from w3 have "refreshLoop [?f, desktop [1, 2] 1] ?m =
       (userWindowsChanged (fst (GetAltTabWindows ?f ?m))
          # fst (refreshLoop [desktop [1, 2] 1] (snd (GetAltTabWindows ?f ?m))),
        snd (refreshLoop [desktop [1, 2] 1] (snd (GetAltTabWindows ?f ?m))))"
    by (rule conjunct2 [THEN conjunct1])
  then have l: "length (fst (refreshLoop [?f, desktop [1, 2] 1] ?m)) = 2"
    by (simp split: prod.splits)
  note o = w3 [THEN conjunct2, THEN conjunct2]
  from f k l o show ?thesis by (intro conjI)
qed

subsection \<open>Activation\<close>

lemma activateWindow_failure:
  "\<not> SetForegroundWindow os hwnd \<Longrightarrow> activateWindow os os' now hwnd m = ([], m)"
  by (simp add: activateWindow_def)

lemma activateWindow_absent:
  "DAList.lookup m hwnd = None \<Longrightarrow> activateWindow os os' now hwnd m = ([], m)"
  by (simp add: activateWindow_def)

lemma activateWindow_present:
  "SetForegroundWindow os hwnd \<Longrightarrow> DAList.lookup m hwnd = Some window \<Longrightarrow>
   activateWindow os os' now hwnd m =
     ([userWindowsChanged (fst (GetAltTabWindows os' (DAList.update hwnd (window\<lparr>LastActive := now\<rparr>) m)))],
      snd (GetAltTabWindows os' (DAList.update hwnd (window\<lparr>LastActive := now\<rparr>) m)))"
  by (simp add: activateWindow_def split: prod.splits)

lemma LastActive_after_refresh:
  "DAList.lookup m k = Some w \<Longrightarrow> DAList.lookup (snd (GetAltTabWindows os m)) k = Some w' \<Longrightarrow>
   LastActive w' = LastActive w"
  by (auto simp: GetAltTabWindows_lookup storedRecord_fields split: if_splits)

lemma SetForegroundWindow_desktop: "SetForegroundWindow (desktop hs fg) h \<longleftrightarrow> h \<in> set hs"
  by (simp add: SetForegroundWindow_def desktop_def)

lemma GetForegroundWindow_desktop: "GetForegroundWindow (desktop hs fg) = fg"
  by (simp add: GetForegroundWindow_def desktop_def)

lemma lookup_first_pass:
  "DAList.lookup (snd (GetAltTabWindows (desktop hs fg) DAList.empty)) h =
     (if h \<in> set hs then Some (storedRecord (desktop hs fg) fg h None) else None)"
  by (simp add: GetAltTabWindows_lookup accepted_desktop enumerated_desktop
      GetForegroundWindow_desktop)

lemma activateWindowActions_failure:
  "\<not> SetForegroundWindow os hwnd \<Longrightarrow> activateWindowActions os os' now hwnd m = []"
  by (simp add: activateWindowActions_def)

lemma activateWindowActions_absent:
  "DAList.lookup m hwnd = None \<Longrightarrow> activateWindowActions os os' now hwnd m = []"
  by (simp add: activateWindowActions_def)

lemma activateWindowActions_present:
  "SetForegroundWindow os hwnd \<Longrightarrow> DAList.lookup m hwnd = Some window \<Longrightarrow>
   activateWindowActions os os' now hwnd m
     = Store hwnd (window\<lparr>LastActive := now\<rparr>) # passActions os'"
  by (simp add: activateWindowActions_def)

lemma LastActive_uninterrupted:
  assumes "accepted os' hwnd" "hwnd \<in> set (fst (os_EnumDesktopWindows os'))"
  shows "map_option LastActive
           (DAList.lookup
              (snd (runActions (Store hwnd (window\<lparr>LastActive := now\<rparr>) # passActions os') m)) hwnd)
         = Some now"
  using assms
  by (simp only: runActions_Store runActions_passActions snd_conv)
     (simp add: GetAltTabWindows_lookup storedRecord_fields)

text \<open>
  C9 as stated fails, in two ways. First, the foreground call for window 1 succeeds,
  the registry has no record of it, and the handler stores nothing and publishes
  nothing. Second, the handler overlaps a pass of the timer. The registry holds windows
  1 and 2 from an earlier pass, the foreground call for window 2 succeeds and the
  handler finds its record. The timer's pass resets and stores both windows again; the
  handler stores the record of window 2 with the time 1000 and its own pass resets; the
  timer's pass sweeps, deleting both records; the handler's pass stores both windows
  anew and sweeps. The snapshot the handler publishes has window 2, eligible and
  enumerated, with \<open>LastActive\<close> 0: the timestamp is lost.
\<close>

theorem activation_counterexample:
  "SetForegroundWindow (desktop [1] 1) 1 \<and>
   activateWindow (desktop [1] 1) (desktop [1] 1) 1000 1 DAList.empty = ([], DAList.empty) \<and>
   SetForegroundWindow (desktop [1, 2] 1) 2 \<and>
   map_option LastActive
     (DAList.lookup (snd (runActions (passActions (desktop [1, 2] 1)) DAList.empty)) 2) = Some 0 \<and>
   IsAltTabWindow (desktop [1, 2] 2) 2 \<and>
   2 \<in> set (fst (os_EnumDesktopWindows (desktop [1, 2] 2))) \<and>
   map (map (\<lambda>window. (Hwnd window, LastActive window)))
     (fst (runActions
            (interleave [True, True, True, False, False, True]
               (passActions (desktop [1, 2] 2))
               (activateWindowActions (desktop [1, 2] 1) (desktop [1, 2] 2) 1000 2
                  (snd (runActions (passActions (desktop [1, 2] 1)) DAList.empty))))
            (snd (runActions (passActions (desktop [1, 2] 1)) DAList.empty))))
     = [[], [(1, 0), (2, 0)]]"
proof -
  have a: "SetForegroundWindow (desktop [1] 1) 1 \<and>
     activateWindow (desktop [1] 1) (desktop [1] 1) 1000 1 DAList.empty = ([], DAList.empty)"
    by (simp add: activateWindow_absent SetForegroundWindow_desktop)
  have b: "SetForegroundWindow (desktop [1, 2] 1) 2" by (simp add: SetForegroundWindow_desktop)
  have c: "map_option LastActive
     (DAList.lookup (snd (runActions (passActions (desktop [1, 2] 1)) DAList.empty)) 2) = Some 0"
    by code_simp
  have d: "IsAltTabWindow (desktop [1, 2] 2) 2 \<and>
     2 \<in> set (fst (os_EnumDesktopWindows (desktop [1, 2] 2)))"
    by (simp add: IsAltTabWindow_desktop enumerated_desktop)
  have e: "map (map (\<lambda>window. (Hwnd window, LastActive window)))
     (fst (runActions
            (interleave [True, True, True, False, False, True]
               (passActions (desktop [1, 2] 2))
               (activateWindowActions (desktop [1, 2] 1) (desktop [1, 2] 2) 1000 2
                  (snd (runActions (passActions (desktop [1, 2] 1)) DAList.empty))))
            (snd (runActions (passActions (desktop [1, 2] 1)) DAList.empty))))
     = [[], [(1, 0), (2, 0)]]"
    by code_simp
  note a1 = a [THEN conjunct1] and a2 = a [THEN conjunct2]
    and d1 = d [THEN conjunct1] and d2 = d [THEN conjunct2]
  from a1 a2 b c d1 d2 e show ?thesis by (intro conjI)
qed

text \<open>
  C9, amended. For every activation request: if the foreground call reports failure,
  the handler takes no step on the registry and publishes nothing. If it succeeds and
  the registry has no record of the handle, likewise it takes no step and publishes
  nothing. If it succeeds and the registry has a record of the handle, the handler
  stores that record with \<open>LastActive\<close> set to the current time and then runs a refresh
  pass, whose snapshot it publishes at once. When no step of another goroutine on the
  registry falls between these steps, exactly one snapshot is published, that of the
  pass on the registry with the new record, and when that pass stores the handle again
  its record carries the new time. The handler run in this way is \<open>activateWindow\<close>.
\<close>

theorem activation_steps:
  "(\<not> SetForegroundWindow os hwnd \<longrightarrow>
      activateWindowActions os os' now hwnd userWindows = []) \<and>
   (SetForegroundWindow os hwnd \<and> DAList.lookup userWindows hwnd = None \<longrightarrow>
      activateWindowActions os os' now hwnd userWindows = []) \<and>
   (SetForegroundWindow os hwnd \<and> DAList.lookup userWindows hwnd = Some window \<longrightarrow>
      activateWindowActions os os' now hwnd userWindows
        = Store hwnd (window\<lparr>LastActive := now\<rparr>) # passActions os' \<and>
      runActions (activateWindowActions os os' now hwnd userWindows) userWindows
        = runActions (passActions os') (DAList.update hwnd (window\<lparr>LastActive := now\<rparr>) userWindows) \<and>
      length (fst (runActions (activateWindowActions os os' now hwnd userWindows) userWindows)) = 1 \<and>
      (accepted os' hwnd \<and> hwnd \<in> set (fst (os_EnumDesktopWindows os')) \<longrightarrow>
         map_option LastActive
           (DAList.lookup
              (snd (runActions (activateWindowActions os os' now hwnd userWindows) userWindows)) hwnd)
           = Some now)) \<and>
   activateWindow os os' now hwnd userWindows
     = (map userWindowsChanged
          (fst (runActions (activateWindowActions os os' now hwnd userWindows) userWindows)),
        snd (runActions (activateWindowActions os os' now hwnd userWindows) userWindows))"
proof (intro conjI impI)
  assume "\<not> SetForegroundWindow os hwnd"
  then show "activateWindowActions os os' now hwnd userWindows = []"
    by (rule activateWindowActions_failure)
next
  assume "SetForegroundWindow os hwnd \<and> DAList.lookup userWindows hwnd = None"
  then show "activateWindowActions os os' now hwnd userWindows = []"
    by (simp add: activateWindowActions_absent)
next
  assume "SetForegroundWindow os hwnd \<and> DAList.lookup userWindows hwnd = Some window"
  then show "activateWindowActions os os' now hwnd userWindows
        = Store hwnd (window\<lparr>LastActive := now\<rparr>) # passActions os'"
    by (simp add: activateWindowActions_present)
next
  assume "SetForegroundWindow os hwnd \<and> DAList.lookup userWindows hwnd = Some window"
  then have "activateWindowActions os os' now hwnd userWindows
        = Store hwnd (window\<lparr>LastActive := now\<rparr>) # passActions os'"
    by (simp add: activateWindowActions_present)
  then show "runActions (activateWindowActions os os' now hwnd userWindows) userWindows
        = runActions (passActions os') (DAList.update hwnd (window\<lparr>LastActive := now\<rparr>) userWindows)"
    by (simp only: runActions_Store)
next
  assume "SetForegroundWindow os hwnd \<and> DAList.lookup userWindows hwnd = Some window"
  then have "activateWindowActions os os' now hwnd userWindows
        = Store hwnd (window\<lparr>LastActive := now\<rparr>) # passActions os'"
    by (simp add: activateWindowActions_present)
  then show "length (fst (runActions (activateWindowActions os os' now hwnd userWindows) userWindows)) = 1"
    by (simp only: runActions_Store runActions_passActions fst_conv) simp
next
  assume a: "SetForegroundWindow os hwnd \<and> DAList.lookup userWindows hwnd = Some window"
    and b: "accepted os' hwnd \<and> hwnd \<in> set (fst (os_EnumDesktopWindows os'))"
  from a have "activateWindowActions os os' now hwnd userWindows
        = Store hwnd (window\<lparr>LastActive := now\<rparr>) # passActions os'"
    by (simp add: activateWindowActions_present)
  with b show "map_option LastActive
           (DAList.lookup
              (snd (runActions (activateWindowActions os os' now hwnd userWindows) userWindows)) hwnd)
           = Some now"
    by (simp only: LastActive_uninterrupted)
next
  show "activateWindow os os' now hwnd userWindows
     = (map userWindowsChanged
          (fst (runActions (activateWindowActions os os' now hwnd userWindows) userWindows)),
        snd (runActions (activateWindowActions os os' now hwnd userWindows) userWindows))"
    by (rule activateWindow_uninterrupted)
qed

theorem activation_steps_witness:
  "\<not> SetForegroundWindow (desktop [1, 2] 1) 3 \<and>
   activateWindowActions (desktop [1, 2] 1) (desktop [1, 2] 1) 1000 3
       (snd (GetAltTabWindows (desktop [1, 2] 1) DAList.empty)) = [] \<and>
   SetForegroundWindow (desktop [1, 2] 1) 2 \<and>
   DAList.lookup DAList.empty (2 :: HWND) = (None :: UserWindow option) \<and>
   activateWindowActions (desktop [1, 2] 1) (desktop [1, 2] 2) 1000 2 DAList.empty = [] \<and>
   DAList.lookup (snd (GetAltTabWindows (desktop [1, 2] 1) DAList.empty)) 2
     = Some (storedRecord (desktop [1, 2] 1) 1 2 None) \<and>
   accepted (desktop [1, 2] 2) 2 \<and> 2 \<in> set (fst (os_EnumDesktopWindows (desktop [1, 2] 2))) \<and>
   length (fst (runActions
        (activateWindowActions (desktop [1, 2] 1) (desktop [1, 2] 2) 1000 2
           (snd (GetAltTabWindows (desktop [1, 2] 1) DAList.empty)))
        (snd (GetAltTabWindows (desktop [1, 2] 1) DAList.empty)))) = 1 \<and>
   map_option LastActive
     (DAList.lookup (snd (runActions
        (activateWindowActions (desktop [1, 2] 1) (desktop [1, 2] 2) 1000 2
           (snd (GetAltTabWindows (desktop [1, 2] 1) DAList.empty)))
        (snd (GetAltTabWindows (desktop [1, 2] 1) DAList.empty)))) 2) = Some 1000"
proof -
  let ?m = "snd (GetAltTabWindows (desktop [1, 2] 1) DAList.empty)"
  let ?w = "storedRecord (desktop [1, 2] 1) 1 2 None"
  have f: "\<not> SetForegroundWindow (desktop [1, 2] 1) 3" by (simp add: SetForegroundWindow_desktop)
  have s: "SetForegroundWindow (desktop [1, 2] 1) 2" by (simp add: SetForegroundWindow_desktop)
  have n: "DAList.lookup DAList.empty (2 :: HWND) = (None :: UserWindow option)" by simp
  have p: "DAList.lookup ?m 2 = Some ?w" by (simp add: lookup_first_pass)
  have acc: "accepted (desktop [1, 2] 2) 2 \<and> 2 \<in> set (fst (os_EnumDesktopWindows (desktop [1, 2] 2)))"
    by (simp add: accepted_desktop enumerated_desktop)
  note t1 = activation_steps [of "desktop [1, 2] 1" 3 "desktop [1, 2] 1" 1000 ?m ?w,
      THEN conjunct1, THEN mp, OF f]
  note t2 = activation_steps [of "desktop [1, 2] 1" 2 "desktop [1, 2] 2" 1000 DAList.empty ?w,
      THEN conjunct2, THEN conjunct1, THEN mp, OF conjI [OF s n]]
  note t3 = activation_steps [of "desktop [1, 2] 1" 2 "desktop [1, 2] 2" 1000 ?m ?w,
      THEN conjunct2, THEN conjunct2, THEN conjunct1, THEN mp, OF conjI [OF s p]]
  note l = t3 [THEN conjunct2, THEN conjunct2, THEN conjunct1]
  note la = t3 [THEN conjunct2, THEN conjunct2, THEN conjunct2, THEN mp, OF acc]
  note acc1 = acc [THEN conjunct1] and acc2 = acc [THEN conjunct2]
  from f t1 s n t2 p acc1 acc2 l la show ?thesis by (intro conjI)
qed

subsection \<open>The selection step\<close>

lemma findIndex_absent:
  "(\<And>x. x \<in> set xs \<Longrightarrow> \<not> p x) \<Longrightarrow> findIndex p xs = -1"
  by (induction xs) (auto simp: Let_def)

lemma findIndex_lower: "- 1 \<le> findIndex p xs"
  by (induction xs) (auto simp: Let_def)

lemma findIndex_at:
  "distinct (map f xs) \<Longrightarrow> i < length xs \<Longrightarrow> findIndex (\<lambda>x. f x = f (xs ! i)) xs = int i"
proof (induction xs arbitrary: i)
  case Nil
  then show ?case by simp
next
  case (Cons x xs)
  show ?case
  proof (cases i)
    case 0
    then show ?thesis by simp
  next
    case (Suc j)
    with Cons.prems have j: "j < length xs" and ne: "f x \<noteq> f (xs ! j)" by auto
    from Cons.IH [OF _ j] Cons.prems have "findIndex (\<lambda>y. f y = f (xs ! j)) xs = int j" by simp
    with Suc ne show ?thesis by (simp add: Let_def)
  qed
qed

lemma js_rem_nonneg: "0 \<le> a \<Longrightarrow> 0 < b \<Longrightarrow> js_rem a b = a mod b"
  by (cases "a = 0") (simp_all add: js_rem_def)

lemma systemKeyPressed_tab_present:
  assumes "distinct (map Hwnd windows)" "i < length windows"
  shows "systemKeyPressed_tab windows (Some (Hwnd (windows ! i)))
           = Some (Hwnd (windows ! (Suc i mod length windows)))"
proof -
  have idx: "findIndex (\<lambda>window. Hwnd window = Hwnd (windows ! i)) windows = int i"
    by (rule findIndex_at [OF assms])
  have n: "length windows \<noteq> 0" using assms(2) by auto
  have r: "js_rem (int i + 1) (int (length windows)) = int (Suc i mod length windows)"
    using n by (simp add: js_rem_nonneg zmod_int add.commute)
  have b: "Suc i mod length windows < length windows" using n by simp
  show ?thesis
    using n b by (simp add: systemKeyPressed_tab_def nextSelected_def idx r at_def Let_def)
qed

lemma systemKeyPressed_tab_absent:
  assumes "windows \<noteq> []" "h \<notin> Hwnd ` set windows"
  shows "systemKeyPressed_tab windows (Some h) = Some (Hwnd (windows ! 0))"
proof -
  have idx: "findIndex (\<lambda>window. Hwnd window = h) windows = -1"
    using assms(2) by (intro findIndex_absent) auto
  show ?thesis
    using assms(1) by (simp add: systemKeyPressed_tab_def nextSelected_def idx at_def js_rem_def Let_def)
qed

lemma systemKeyPressed_tab_steps:
  assumes "distinct (map Hwnd windows)" "i < length windows"
  shows "(systemKeyPressed_tab windows ^^ k) (Some (Hwnd (windows ! i)))
           = Some (Hwnd (windows ! ((i + k) mod length windows)))"
proof (induction k)
  case 0
  from assms(2) show ?case by simp
next
  case (Suc k)
  have "0 < length windows" using assms(2) by auto
  then have b: "(i + k) mod length windows < length windows" by simp
  have "Suc ((i + k) mod length windows) mod length windows = (i + Suc k) mod length windows"
    by (simp add: mod_Suc_eq)
  with Suc systemKeyPressed_tab_present [OF assms(1) b] show ?case by simp
qed

text \<open>
  C8 as stated fails. From the handle 4, which is not in the list of the windows 1, 2
  and 3, three steps end at 3, not at 4: a step only ever selects a handle of the
  list. And in a list that repeats a handle the step finds the first occurrence, so
  from 2 in the list 1, 1, 2 three steps end at 1.
\<close>

theorem next_full_cycle_counterexample:
  "(systemKeyPressed_tab [win 1, win 2, win 3] ^^ length [win 1, win 2, win 3]) (Some 4) = Some 3 \<and>
   (systemKeyPressed_tab [win 1, win 2, win 3] ^^ length [win 1, win 2, win 3]) (Some 4) \<noteq> Some 4 \<and>
   (systemKeyPressed_tab [win 1, win 1, win 2] ^^ length [win 1, win 1, win 2]) (Some 2) = Some 1 \<and>
   (systemKeyPressed_tab [win 1, win 1, win 2] ^^ length [win 1, win 1, win 2]) (Some 2) \<noteq> Some 2"
  by (simp add: numeral_3_eq_3 systemKeyPressed_tab_def nextSelected_def win_def at_def js_rem_def Let_def)

text \<open>
  C8, amended. For every list of windows with distinct handles and every starting
  handle in the list, applying the step as many times as the list is long returns the
  starting handle. A starting handle that is not in the (nonempty) list is treated as
  index -1: one step selects element 0, and as many steps as the list is long select
  the last element.
\<close>

theorem next_full_cycle:
  "(distinct (map Hwnd windows) \<and> h \<in> Hwnd ` set windows \<longrightarrow>
      (systemKeyPressed_tab windows ^^ length windows) (Some h) = Some h) \<and>
   (distinct (map Hwnd windows) \<and> windows \<noteq> [] \<and> h \<notin> Hwnd ` set windows \<longrightarrow>
      systemKeyPressed_tab windows (Some h) = Some (Hwnd (windows ! 0)) \<and>
      (systemKeyPressed_tab windows ^^ length windows) (Some h) = Some (Hwnd (last windows)))"
proof (intro conjI impI)
  assume a: "distinct (map Hwnd windows) \<and> h \<in> Hwnd ` set windows"
  then obtain i where i: "i < length windows" "h = Hwnd (windows ! i)"
    by (auto simp: in_set_conv_nth)
  from systemKeyPressed_tab_steps [OF conjunct1 [OF a] i(1), of "length windows"] i
  show "(systemKeyPressed_tab windows ^^ length windows) (Some h) = Some h" by simp
next
  assume a: "distinct (map Hwnd windows) \<and> windows \<noteq> [] \<and> h \<notin> Hwnd ` set windows"
  then show "systemKeyPressed_tab windows (Some h) = Some (Hwnd (windows ! 0))"
    by (simp add: systemKeyPressed_tab_absent)
next
  assume a: "distinct (map Hwnd windows) \<and> windows \<noteq> [] \<and> h \<notin> Hwnd ` set windows"
  then obtain n where n: "length windows = Suc n" by (cases windows) auto
  have first: "systemKeyPressed_tab windows (Some h) = Some (Hwnd (windows ! 0))"
    using a by (simp add: systemKeyPressed_tab_absent)
  have "(systemKeyPressed_tab windows ^^ Suc n) (Some h)
          = (systemKeyPressed_tab windows ^^ n) (systemKeyPressed_tab windows (Some h))"
    by (simp only: funpow_Suc_right o_apply)
  also have "\<dots> = Some (Hwnd (windows ! ((0 + n) mod length windows)))"
    unfolding first using a n by (intro systemKeyPressed_tab_steps) auto
  also have "\<dots> = Some (Hwnd (last windows))"
    using a n by (simp add: last_conv_nth)
  finally show "(systemKeyPressed_tab windows ^^ length windows) (Some h) = Some (Hwnd (last windows))"
    using n by simp
qed

theorem next_full_cycle_witness:
  "distinct (map Hwnd [win 1, win 2, win 3]) \<and> 2 \<in> Hwnd ` set [win 1, win 2, win 3] \<and>
   (systemKeyPressed_tab [win 1, win 2, win 3] ^^ length [win 1, win 2, win 3]) (Some 2) = Some 2 \<and>
   [win 1, win 2, win 3] \<noteq> [] \<and> 4 \<notin> Hwnd ` set [win 1, win 2, win 3] \<and>
   systemKeyPressed_tab [win 1, win 2, win 3] (Some 4) = Some 1 \<and>
   (systemKeyPressed_tab [win 1, win 2, win 3] ^^ length [win 1, win 2, win 3]) (Some 4) = Some 3"
proof -
  have d: "distinct (map Hwnd [win 1, win 2, win 3])" by (simp add: win_def)
  have p: "2 \<in> Hwnd ` set [win 1, win 2, win 3]" by (simp add: win_def)
  have q: "4 \<notin> Hwnd ` set [win 1, win 2, win 3]" by (simp add: win_def)
  have ne: "[win 1, win 2, win 3] \<noteq> []" by simp
  note t = next_full_cycle [of "[win 1, win 2, win 3]"]
  from t [of 2] d p
  have c1: "(systemKeyPressed_tab [win 1, win 2, win 3] ^^ length [win 1, win 2, win 3]) (Some 2) = Some 2"
    by blast
  from t [of 4] d ne q
  have c2: "systemKeyPressed_tab [win 1, win 2, win 3] (Some 4) = Some (Hwnd ([win 1, win 2, win 3] ! 0)) \<and>
      (systemKeyPressed_tab [win 1, win 2, win 3] ^^ length [win 1, win 2, win 3]) (Some 4)
        = Some (Hwnd (last [win 1, win 2, win 3]))"
    by blast
  have e: "Hwnd ([win 1, win 2, win 3] ! 0) = 1" "Hwnd (last [win 1, win 2, win 3]) = 3"
    by (simp_all add: win_def)
  from c2 have c3: "systemKeyPressed_tab [win 1, win 2, win 3] (Some 4) = Some 1"
    and c4: "(systemKeyPressed_tab [win 1, win 2, win 3] ^^ length [win 1, win 2, win 3]) (Some 4) = Some 3"
    unfolding e by blast+
  show ?thesis by (intro conjI) (fact d p c1 ne q c3 c4)+
qed

subsection \<open>The ordered revision\<close>

text \<open>
  The prune always returns (the bounds of \<open>slices.Delete\<close> are never violated), and the
  handles it leaves in \<open>windowsOrder\<close> stand in the order they had before.
\<close>

lemma subseq_remove_nth: "i < length s \<Longrightarrow> subseq (take i s @ drop (Suc i) s) s"
proof -
  assume "i < length s"
  then have e: "s = take i s @ (s ! i) # drop (Suc i) s" by (rule id_take_nth_drop)
  have "subseq (take i s @ drop (Suc i) s) (take i s @ (s ! i) # drop (Suc i) s)"
    by (intro list_emb_append_mono list_emb_Cons) simp_all
  with e show ?thesis by simp
qed

lemma slices_Delete_one:
  assumes "length mem = n" "len \<le> n" "0 \<le> i" "i < int len"
  shows "\<exists>mem'. slices_Delete clears mem len i (i + 1) = Some (mem', len - 1) \<and>
           length mem' = n \<and>
           take (len - 1) mem' = take (nat i) (take len mem) @ drop (Suc (nat i)) (take len mem)"
proof -
  let ?s = "take len mem"
  let ?kept = "take (nat i) ?s @ drop (nat (i + 1)) ?s"
  have j: "nat (i + 1) = Suc (nat i)" using assms(3) by simp
  have ls: "length ?s = len" using assms(1,2) by simp
  have lk: "length ?kept = len - 1" using assms(3,4) ls by (simp add: j)
  have d: "nat (i + 1) - nat i = 1" using j by simp
  have lt: "length (if clears then replicate (nat (i + 1) - nat i) (0 :: HWND) else drop (length ?kept) ?s) = 1"
    using ls lk assms(3,4) by (auto simp: d)
  show ?thesis
    using assms lk lt ls
    by (simp add: slices_Delete_def Let_def j del: replicate.simps) 
qed


lemma pruneLoop_returns:
  assumes "length mem = n" "k \<le> n" "0 \<le> offset" "offset \<le> int k" "len = n - nat offset"
  shows "\<exists>mem' len' offset' m'.
           pruneLoop clears [k..<n] (mem, len, offset, m) = Some (mem', len', offset', m') \<and>
           subseq (take len' mem') (take len mem)"
  using assms
proof (induction "n - k" arbitrary: k mem len offset m)
  case 0
  then show ?case by simp
next
  case (Suc d)
  then have kn: "k < n" by simp
  have up: "[k..<n] = k # [Suc k..<n]" using kn by (simp add: upt_conv_Cons)
  have d: "d = n - Suc k" using Suc.hyps(2) by simp
  let ?i = "int k - offset"
  show ?case
  proof (cases "DAList.lookup m (mem ! k) = None \<or> \<not> ord_touched (the (DAList.lookup m (mem ! k)))")
    case False
    then have st: "pruneStep clears k (mem, len, offset, m) = Some (mem, len, offset, m)"
      by (auto simp: pruneStep_def Let_def)
    from Suc.hyps(1) [OF d Suc.prems(1), of offset len m] kn Suc.prems
    obtain mem' len' offset' m' where
      "pruneLoop clears [Suc k..<n] (mem, len, offset, m) = Some (mem', len', offset', m')"
      "subseq (take len' mem') (take len mem)" by auto
    with st up show ?thesis by simp
  next
    case True
    have lenn: "len \<le> n" using Suc.prems by simp
    have i0: "0 \<le> ?i" using Suc.prems by simp
    have il: "?i < int len" using Suc.prems kn by simp
    from slices_Delete_one [OF Suc.prems(1) lenn i0 il, of clears]
    obtain mem1 where del: "slices_Delete clears mem len ?i (?i + 1) = Some (mem1, len - 1)"
      and l1: "length mem1 = n"
      and t1: "take (len - 1) mem1 = take (nat ?i) (take len mem) @ drop (Suc (nat ?i)) (take len mem)"
      by auto
    let ?m1 = "if DAList.lookup m (mem ! k) \<noteq> None then DAList.delete (mem ! k) m else m"
    have st: "pruneStep clears k (mem, len, offset, m) = Some (mem1, len - 1, offset + 1, ?m1)"
      using True del by (auto simp: pruneStep_def Let_def)
    have o1: "0 \<le> offset + 1" "offset + 1 \<le> int (Suc k)" using Suc.prems by simp_all
    have len1: "len - 1 = n - nat (offset + 1)" using Suc.prems by simp
    from Suc.hyps(1) [OF d l1 _ o1 len1, of ?m1] kn
    obtain mem' len' offset' m' where
      r: "pruneLoop clears [Suc k..<n] (mem1, len - 1, offset + 1, ?m1) = Some (mem', len', offset', m')"
      and s: "subseq (take len' mem') (take (len - 1) mem1)" by auto
    have "nat ?i < length (take len mem)" using il i0 Suc.prems(1) lenn by simp
    then have "subseq (take (len - 1) mem1) (take len mem)"
      unfolding t1 by (rule subseq_remove_nth)
    with s have "subseq (take len' mem') (take len mem)" by (rule subseq_order.trans)
    with st up r show ?thesis by simp
  qed
qed

lemma EndSweep_returns_subsequence:
  "\<exists>windowsOrder' userWindows'.
     EndSweep clears windowsOrder userWindows = Some (windowsOrder', userWindows') \<and>
     subseq windowsOrder' windowsOrder"
  using pruneLoop_returns [of windowsOrder "length windowsOrder" 0 0 "length windowsOrder" clears userWindows]
  by (auto simp: EndSweep_def)

text \<open>
  C1, at the inputs where it fails. The prune loop ranges over \<open>windowsOrder\<close> while
  \<open>slices.Delete\<close> shifts its backing array, so the element that moves into the place
  of a deleted one is never examined, and the last iterations read what \<open>Delete\<close> left
  behind the new end.

  With the order 1, 2, 3 and the records of 1 and 2 untouched, handle 2 survives in
  \<open>windowsOrder\<close> and in \<open>userWindows\<close> although untouched; where \<open>Delete\<close> zeroes the
  vacated tail (Go 1.22 and later) the touched handle 3 is removed from \<open>windowsOrder\<close>
  as well, because the last iteration reads the handle 0, which has no record. With
  only 1 untouched, the scenario of the specification, the order becomes 2 alone under
  Go 1.22 and later. The same as two passes from the empty registry: after a pass on
  the windows 1, 2, 3, a pass on a desktop where only 3 is left, or where 3 and 2 are
  left, yields the snapshot of 2 alone.
\<close>

theorem EndSweep_skips_after_deletion:
  "map_option (observe [1, 2, 3])
       (EndSweep True [1, 2, 3] (ordRegistry [(1, False), (2, False), (3, True)]))
     = Some ([2], [None, Some False, Some True]) \<and>
   map_option (observe [1, 2, 3])
       (EndSweep False [1, 2, 3] (ordRegistry [(1, False), (2, False), (3, True)]))
     = Some ([2, 3], [None, Some False, Some True]) \<and>
   map_option (observe [1, 2, 3])
       (EndSweep True [1, 2, 3] (ordRegistry [(1, False), (2, True), (3, True)]))
     = Some ([2], [None, Some True, Some True]) \<and>
   twoPasses True (desktop [1, 2, 3] 1) (desktop [3] 3) = Some ([2], [2]) \<and>
   twoPasses False (desktop [1, 2, 3] 1) (desktop [3] 3) = Some ([2, 3], [2, 3]) \<and>
   twoPasses True (desktop [1, 2, 3] 1) (desktop [3, 2] 3) = Some ([2], [2])"
  by code_simp

end
